theory Spec2Isabelle
  imports Main "HOL-Library.Sublist"
begin

section \<open>Exceptions and common characters\<close>

text \<open>
  The exceptions that the scripts can meet.  \<^verbatim>\<open>UnicodeDecodeError\<close> and
  \<^verbatim>\<open>JSONDecodeError\<close> are subclasses of \<^verbatim>\<open>ValueError\<close>, not of \<^verbatim>\<open>OSError\<close>.
\<close>

datatype pyexn = OSError | UnicodeDecodeError | JSONDecodeError | AttributeError | ValueError

abbreviation nl :: char where "nl \<equiv> CHR ''\<newline>''"

section \<open>Python string primitives used by the scripts\<close>

text \<open>
  Python strings are modelled as HOL strings: lists of characters with code points
  below 256.  Each primitive below follows the behaviour of the corresponding
  \<^verbatim>\<open>str\<close> method on such strings.
\<close>

definition startswith :: "string \<Rightarrow> string \<Rightarrow> bool" where
  "startswith s p = prefix p s"

definition endswith :: "string \<Rightarrow> string \<Rightarrow> bool" where
  "endswith s p = suffix p s"

text \<open>\<^verbatim>\<open>sub in s\<close>: substring containment.\<close>

fun contains :: "string \<Rightarrow> string \<Rightarrow> bool" where
  "contains [] sub = (sub = [])"
| "contains (c # cs) sub = (prefix sub (c # cs) \<or> contains cs sub)"

text \<open>\<^verbatim>\<open>str.isspace\<close> on one character, for code points below 256.\<close>

definition py_isspace :: "char \<Rightarrow> bool" where
  "py_isspace c = (let n = of_char c :: nat in
     (9 \<le> n \<and> n \<le> 13) \<or> (28 \<le> n \<and> n \<le> 32) \<or> n = 133 \<or> n = 160)"

definition lstrip :: "string \<Rightarrow> string" where
  "lstrip s = dropWhile py_isspace s"

definition rstrip :: "string \<Rightarrow> string" where
  "rstrip s = rev (dropWhile py_isspace (rev s))"

definition strip :: "string \<Rightarrow> string" where
  "strip s = rstrip (lstrip s)"

text \<open>
  \<^verbatim>\<open>s.split(sep)\<close> for a non-empty separator: the pieces between the
  non-overlapping occurrences of \<open>sep\<close>, scanning from the left.  The accumulator
  holds the current piece in reverse.
\<close>

function py_split_aux :: "string \<Rightarrow> string \<Rightarrow> string \<Rightarrow> string list" where
  "py_split_aux sep acc [] = [rev acc]"
| "py_split_aux sep acc (c # cs) =
     (if sep \<noteq> [] \<and> prefix sep (c # cs)
      then rev acc # py_split_aux sep [] (drop (length sep) (c # cs))
      else py_split_aux sep (c # acc) cs)"
  by pat_completeness auto
termination
  by (relation "measure (\<lambda>(sep, acc, s). length s)") auto

definition py_split :: "string \<Rightarrow> string \<Rightarrow> string list" where
  "py_split s sep = py_split_aux sep [] s"

text \<open>
  \<^verbatim>\<open>s.splitlines()\<close>: line boundaries are \<^verbatim>\<open>\n\<close>, \<^verbatim>\<open>\r\<close>, \<^verbatim>\<open>\r\n\<close>,
  \<^verbatim>\<open>\v\<close>, \<^verbatim>\<open>\f\<close>, \<^verbatim>\<open>\x1c\<close>, \<^verbatim>\<open>\x1d\<close>, \<^verbatim>\<open>\x1e\<close> and \<^verbatim>\<open>\x85\<close>; the
  boundaries are dropped and a trailing boundary does not open an empty last line.
\<close>

definition is_linebreak :: "char \<Rightarrow> bool" where
  "is_linebreak c = (let n = of_char c :: nat in
     (10 \<le> n \<and> n \<le> 13) \<or> (28 \<le> n \<and> n \<le> 30) \<or> n = 133)"

fun splitlines_aux :: "string \<Rightarrow> string \<Rightarrow> string list" where
  "splitlines_aux acc [] = (if acc = [] then [] else [rev acc])"
| "splitlines_aux acc [c] =
     (if is_linebreak c then [rev acc] else [rev (c # acc)])"
| "splitlines_aux acc (c # d # cs) =
     (if c = CHR 0x0D \<and> d = CHR 0x0A then rev acc # splitlines_aux [] cs
      else if is_linebreak c then rev acc # splitlines_aux [] (d # cs)
      else splitlines_aux (c # acc) (d # cs))"

definition splitlines :: "string \<Rightarrow> string list" where
  "splitlines s = splitlines_aux [] s"

section \<open>POSIX path helpers\<close>

text \<open>\<^verbatim>\<open>os.path.basename\<close>: the text after the last slash.\<close>

definition basename :: "string \<Rightarrow> string" where
  "basename p = rev (takeWhile (\<lambda>c. c \<noteq> CHR ''/'') (rev p))"

text \<open>\<^verbatim>\<open>os.path.join\<close> of two components (\<^verbatim>\<open>os.sep\<close> is the slash).\<close>

definition path_join :: "string \<Rightarrow> string \<Rightarrow> string" where
  "path_join a b =
     (if startswith b ''/'' then b
      else if a = [] \<or> endswith a ''/'' then a @ b
      else a @ ''/'' @ b)"

section \<open>Redundancy scanner: duplicate basenames\<close>

text \<open>
  \<^verbatim>\<open>by_name\<close> is a \<^verbatim>\<open>defaultdict(list)\<close>; it is kept as an association list in
  insertion order, which is the order \<^verbatim>\<open>by_name.items()\<close> iterates in.
\<close>


fun by_name_add :: "(string \<times> string list) list \<Rightarrow> string \<Rightarrow> string \<Rightarrow> (string \<times> string list) list" where
  "by_name_add [] k p = [(k, [p])]"
| "by_name_add ((k', ps) # m) k p =
     (if k' = k then (k', ps @ [p]) # m else (k', ps) # by_name_add m k p)"

definition by_name :: "string list \<Rightarrow> (string \<times> string list) list" where
  "by_name swift_files = foldl (\<lambda>m p. by_name_add m (basename p) p) [] swift_files"

definition duplicates :: "string list \<Rightarrow> (string \<times> string list) list" where
  "duplicates swift_files = filter (\<lambda>(name, paths). length paths > 1) (by_name swift_files)"

text \<open>The group of a basename, as the specification words it: all collected paths with that basename.\<close>

definition group_of :: "string list \<Rightarrow> string \<Rightarrow> string list" where
  "group_of swift_files n = filter (\<lambda>p. basename p = n) swift_files"

section \<open>Path-hygiene check\<close>

text \<open>
  The regular expressions of \<^verbatim>\<open>ALLOWED\<close> are matched with \<^verbatim>\<open>re.match\<close>, that is at
  the start of the path.  Four of them are literal prefixes; \<^verbatim>\<open>^Sources/MCP[^/]+/\<close> needs
  a non-empty run of non-slash characters after \<^verbatim>\<open>Sources/MCP\<close>, followed by a slash
  (the greedy run stops at the first slash, and giving characters back cannot help).
\<close>

abbreviation tab :: char where "tab \<equiv> CHR 0x09"

definition ALLOWED :: "string list" where
  "ALLOWED = [''^Sources/App/Consolidated/'', ''^Sources/Kits/'', ''^Sources/SharedTypes/'',
              ''^Sources/MCP[^/]+/'', ''^Tests/'']"

definition match_literal :: "string \<Rightarrow> string \<Rightarrow> bool" where
  "match_literal lit path = prefix lit path"

definition match_mcp :: "string \<Rightarrow> bool" where
  "match_mcp path =
     (prefix ''Sources/MCP'' path \<and>
      (let rest = drop (length ''Sources/MCP'') path
       in takeWhile (\<lambda>c. c \<noteq> CHR ''/'') rest \<noteq> [] \<and>
          prefix ''/'' (dropWhile (\<lambda>c. c \<noteq> CHR ''/'') rest)))"

definition ALLOWED_RE :: "(string \<Rightarrow> bool) list" where
  "ALLOWED_RE = [match_literal ''Sources/App/Consolidated/'', match_literal ''Sources/Kits/'',
                 match_literal ''Sources/SharedTypes/'', match_mcp, match_literal ''Tests/'']"

definition allowed :: "string \<Rightarrow> bool" where
  "allowed path = list_ex (\<lambda>r. r path) ALLOWED_RE"

text \<open>
  The diff range: \<^verbatim>\<open>GITHUB_BASE_REF\<close> when it is set and non-empty, the last commit
  otherwise.
\<close>

definition ref_range :: "string option \<Rightarrow> string" where
  "ref_range base = (case base of
       None \<Rightarrow> ''HEAD~1..HEAD''
     | Some b \<Rightarrow> if b \<noteq> [] then ''origin/'' @ b @ ''...HEAD'' else ''HEAD~1..HEAD'')"

text \<open>
  The fields of one line of \<^verbatim>\<open>git diff --name-status\<close>, as the loop reads them: the
  stripped first field is the status, the stripped second field (when there is one) the
  path.
\<close>

definition line_status :: "string \<Rightarrow> string" where
  "line_status line = strip (hd (py_split line [tab]))"

definition line_path :: "string \<Rightarrow> string option" where
  "line_path line =
     (let parts = py_split line [tab] in
      if length parts < 2 then None else Some (strip (parts ! 1)))"

text \<open>
  One iteration of the loop over \<^verbatim>\<open>out.splitlines()\<close>: \<open>Some path\<close> when the path is
  appended to \<^verbatim>\<open>violations\<close>, \<open>None\<close> on every \<^verbatim>\<open>continue\<close>.
\<close>

definition violation_of_line :: "string \<Rightarrow> string option" where
  "violation_of_line line =
     (let parts = py_split line [tab] in
      if parts = [] then None
      else let status = strip (hd parts) in
        if status \<noteq> ''A'' then None
        else if length parts < 2 then None
        else let path = strip (parts ! 1) in
          if \<not> endswith path ''.swift'' then None
          else if startswith path ''backup/'' then None
          else if \<not> allowed path then Some path
          else None)"

definition violations :: "string \<Rightarrow> string list" where
  "violations out = List.map_filter violation_of_line (splitlines out)"

text \<open>What a run of a script leaves behind: its exit status and what it printed.\<close>

record run_result =
  exit_status :: nat
  stdout :: "string list"
  stderr :: "string list"

text \<open>
  What \<^verbatim>\<open>subprocess.check_output\<close> does with the git command: git runs and exits with a
  non-zero status (\<^verbatim>\<open>CalledProcessError\<close> with its message), the call raises another
  exception (an \<^verbatim>\<open>OSError\<close> when git cannot be started, a \<^verbatim>\<open>UnicodeDecodeError\<close>
  when the output is not valid text), or git prints its output.
\<close>

datatype git_outcome = CalledProcessError string | Raised pyexn | Output string

text \<open>
  The script, given the outcome of \<^verbatim>\<open>git --no-pager diff --name-status\<close> on
  \<open>ref_range\<close>.  Only \<^verbatim>\<open>CalledProcessError\<close> is caught; any other exception ends the
  script with a traceback and Python's exit status 1.  A script that reaches its end
  exits with status 0.
\<close>

definition check_path_hygiene :: "git_outcome \<Rightarrow> run_result" where
  "check_path_hygiene git_diff =
     (case git_diff of
        CalledProcessError e \<Rightarrow>
          \<lparr>exit_status = 2, stdout = [], stderr = [''Git diff failed: '' @ e]\<rparr>
      | Raised e \<Rightarrow>
          \<lparr>exit_status = 1, stdout = [], stderr = [''Traceback (most recent call last):'']\<rparr>
      | Output out \<Rightarrow>
          (let vs = violations out in
           if vs \<noteq> [] then
             \<lparr>exit_status = 1,
              stdout = [''Path hygiene check failed. New Swift files must live under one of:'']
                       @ map (\<lambda>p. ''  - '' @ p) ALLOWED
                       @ [''\<newline>The following new files violate the policy:'']
                       @ map (\<lambda>v. ''  - '' @ v) vs,
              stderr = []\<rparr>
           else
             \<lparr>exit_status = 0,
              stdout = [''Path hygiene check passed. No new Swift files outside allowed directories.''],
              stderr = []\<rparr>))"

text \<open>
  What git prints for \<^verbatim>\<open>diff --name-status\<close>.  An entry of the diff is a status (a
  letter, for renames and copies followed by a score), a path and, for renames and
  copies, the destination path.  Git prints one line per entry: the status and the
  paths, separated by tabs, ended by a newline.  A path that holds a control character,
  a double quote, a backslash or a byte outside ASCII is printed in C-style quotes with
  escapes (the default \<^verbatim>\<open>core.quotePath\<close>); any other path is printed verbatim.
\<close>

type_synonym diff_entry = "string \<times> string \<times> string option"

definition needs_quoting :: "char \<Rightarrow> bool" where
  "needs_quoting c = (let n = of_char c :: nat in n < 32 \<or> n \<ge> 127 \<or> n = 34 \<or> n = 92)"

definition octal3 :: "nat \<Rightarrow> string" where
  "octal3 n = map (\<lambda>d. char_of (48 + d)) [n div 64, (n div 8) mod 8, n mod 8]"

definition quote_char :: "char \<Rightarrow> string" where
  "quote_char c = (let n = of_char c :: nat in
     if n = 7 then [CHR 0x5C, CHR ''a'']
     else if n = 8 then [CHR 0x5C, CHR ''b'']
     else if n = 9 then [CHR 0x5C, CHR ''t'']
     else if n = 10 then [CHR 0x5C, CHR ''n'']
     else if n = 11 then [CHR 0x5C, CHR ''v'']
     else if n = 12 then [CHR 0x5C, CHR ''f'']
     else if n = 13 then [CHR 0x5C, CHR ''r'']
     else if n = 34 then [CHR 0x5C, CHR 0x22]
     else if n = 92 then [CHR 0x5C, CHR 0x5C]
     else if needs_quoting c then CHR 0x5C # octal3 n
     else [c])"

definition c_quote :: "string \<Rightarrow> string" where
  "c_quote p = (if list_ex needs_quoting p
                then [CHR 0x22] @ concat (map quote_char p) @ [CHR 0x22] else p)"

definition name_status_line :: "diff_entry \<Rightarrow> string" where
  "name_status_line e = (case e of (st, p, q) \<Rightarrow>
     st @ [tab] @ c_quote p
        @ (case q of None \<Rightarrow> [] | Some p' \<Rightarrow> [tab] @ c_quote p') @ [nl])"

definition name_status :: "diff_entry list \<Rightarrow> string" where
  "name_status entries = concat (map name_status_line entries)"

text \<open>
  The newly added Swift files of a diff, in the words of the specification: the paths of
  the entries with status \<^verbatim>\<open>A\<close> whose path ends with \<^verbatim>\<open>.swift\<close>.
\<close>

definition added_swift_files :: "diff_entry list \<Rightarrow> string list" where
  "added_swift_files entries =
     map (\<lambda>e. fst (snd e))
       (filter (\<lambda>e. fst e = ''A'' \<and> endswith (fst (snd e)) ''.swift'') entries)"

text \<open>
  The entries that git prints verbatim and that carry no blank at either end of a path:
  the status is made of capital ASCII letters and digits; a path is not empty, needs no
  quoting and neither begins nor ends with a blank.
\<close>

definition valid_status :: "string \<Rightarrow> bool" where
  "valid_status st = (st \<noteq> [] \<and>
     list_all (\<lambda>c. let n = of_char c :: nat in (65 \<le> n \<and> n \<le> 90) \<or> (48 \<le> n \<and> n \<le> 57)) st)"

definition plain_path :: "string \<Rightarrow> bool" where
  "plain_path p = (p \<noteq> [] \<and> \<not> list_ex needs_quoting p
                   \<and> hd p \<noteq> CHR '' '' \<and> last p \<noteq> CHR '' '')"

definition plain_entry :: "diff_entry \<Rightarrow> bool" where
  "plain_entry e = (case e of (st, p, q) \<Rightarrow>
     valid_status st \<and> plain_path p \<and> (case q of None \<Rightarrow> True | Some p' \<Rightarrow> plain_path p'))"

text \<open>A Swift file with a name outside ASCII, added outside the allowed directories.\<close>

definition cafe_swift :: string where
  "cafe_swift = ''Sources/App/Random/Caf'' @ [CHR 0xC3, CHR 0xA9] @ ''.swift''"

text \<open>A diff with a modified, a deleted, a renamed, an added non-Swift and an added backup file.\<close>

definition diff_sample :: string where
  "diff_sample = ''M'' @ [tab] @ ''Sources/App/Random/Old.swift\<newline>''
     @ ''D'' @ [tab] @ ''Sources/Gone.swift\<newline>''
     @ ''R100'' @ [tab] @ ''Sources/A.swift'' @ [tab] @ ''Sources/B.swift\<newline>''
     @ ''A'' @ [tab] @ ''Sources/App/Random/notes.md\<newline>''
     @ ''A'' @ [tab] @ ''backup/Sources/App/Random/Foo.swift\<newline>''"

text \<open>
  The line of an entry without its newline, when git prints the paths verbatim.
\<close>

definition entry_text :: "diff_entry \<Rightarrow> string" where
  "entry_text e = (case e of (st, p, q) \<Rightarrow>
     st @ [tab] @ p @ (case q of None \<Rightarrow> [] | Some p' \<Rightarrow> [tab] @ p'))"

text \<open>
  A diff with a modified file, an added Swift file outside the allowed directories and
  a rename.
\<close>

definition sample_entries :: "diff_entry list" where
  "sample_entries = [(''M'', ''README.md'', None),
                     (''A'', ''Sources/App/Random/Foo.swift'', None),
                     (''R100'', ''Sources/Old.swift'', Some ''Sources/Kits/New.swift'')]"

section \<open>File system\<close>

text \<open>
  What reading a file with \<^verbatim>\<open>read_text()\<close> meets: bytes that decode to a text, bytes
  that are not valid in the default encoding, or a file that cannot be opened.  A
  directory is a list of named entries, in the order the operating system lists them.
\<close>

datatype file_content = Text string | Undecodable | Unreadable

datatype fsnode = File file_content | Dir "(string \<times> fsnode) list"

text \<open>
  \<^verbatim>\<open>Path.read_text()\<close>: a directory or an unreadable file raises an \<^verbatim>\<open>OSError\<close>,
  undecodable bytes raise \<^verbatim>\<open>UnicodeDecodeError\<close>.
\<close>

fun read_text :: "fsnode \<Rightarrow> pyexn + string" where
  "read_text (File (Text s)) = Inr s"
| "read_text (File Undecodable) = Inl UnicodeDecodeError"
| "read_text (File Unreadable) = Inl OSError"
| "read_text (Dir es) = Inl OSError"

fun is_dir :: "fsnode \<Rightarrow> bool" where
  "is_dir (Dir es) = True"
| "is_dir (File c) = False"

definition dirnames :: "(string \<times> fsnode) list \<Rightarrow> string list" where
  "dirnames es = map fst (filter (\<lambda>e. is_dir (snd e)) es)"

definition filenames :: "(string \<times> fsnode) list \<Rightarrow> string list" where
  "filenames es = map fst (filter (\<lambda>e. \<not> is_dir (snd e)) es)"

text \<open>
  \<^verbatim>\<open>(project_path / rel).exists()\<close>: follow the components of \<open>rel\<close> down the tree.
\<close>

fun lookup :: "fsnode \<Rightarrow> string list \<Rightarrow> fsnode option" where
  "lookup n [] = Some n"
| "lookup (File c) (p # ps) = None"
| "lookup (Dir es) (p # ps) = (case map_of es p of None \<Rightarrow> None | Some n \<Rightarrow> lookup n ps)"

definition rel_parts :: "string \<Rightarrow> string list" where
  "rel_parts rel = filter (\<lambda>p. p \<noteq> [] \<and> p \<noteq> ''.'') (py_split rel ''/'')"

definition child :: "fsnode \<Rightarrow> string \<Rightarrow> fsnode option" where
  "child project_path rel = lookup project_path (rel_parts rel)"

definition exists :: "fsnode \<Rightarrow> string \<Rightarrow> bool" where
  "exists project_path rel = (child project_path rel \<noteq> None)"

text \<open>
  \<^verbatim>\<open>os.walk(top)\<close>, top-down: the directory itself with the names of its subdirectories
  and of its files, then every subdirectory in turn.
\<close>

fun walk :: "string \<Rightarrow> fsnode \<Rightarrow> (string \<times> string list \<times> string list) list" where
  "walk base (File c) = []"
| "walk base (Dir es) =
     (base, dirnames es, filenames es)
       # concat (map (\<lambda>e. walk (path_join base (fst e)) (snd e)) es)"

text \<open>
  The collectors of \<^verbatim>\<open>scan_project.py\<close> and \<^verbatim>\<open>scan_redundancy.py\<close>: a directory is
  skipped when its path \<open>base\<close> contains one of the skip strings, each an excluded name
  between two separators; the Swift files of every other directory are collected.
\<close>

definition SKIP_PROJECT :: "string list" where
  "SKIP_PROJECT = [''/.git/'', ''/.build/'', ''/build/'', ''/DerivedData/'']"

definition SKIP_REDUNDANCY :: "string list" where
  "SKIP_REDUNDANCY = [''/.git/'', ''/.build/'', ''/build/'', ''/DerivedData/'', ''/fastlane/'', ''/backup/'']"

definition collect_swift :: "string list \<Rightarrow> string \<Rightarrow> fsnode \<Rightarrow> string list" where
  "collect_swift skips root tree =
     concat (map (\<lambda>(base, dirs, files).
        if list_ex (\<lambda>skip. contains base skip) skips then []
        else map (path_join base) (filter (\<lambda>f. endswith f ''.swift'') files))
      (walk root tree))"

definition scan_project_swift_files :: "string \<Rightarrow> fsnode \<Rightarrow> string list" where
  "scan_project_swift_files root tree = collect_swift SKIP_PROJECT root tree"

definition scan_redundancy_swift_files :: "string \<Rightarrow> fsnode \<Rightarrow> string list" where
  "scan_redundancy_swift_files root tree = collect_swift SKIP_REDUNDANCY root tree"

text \<open>
  A project with one Swift file at the top, one directly inside \<^verbatim>\<open>build\<close> and one
  deeper inside \<^verbatim>\<open>build\<close>.
\<close>

definition sample_tree :: fsnode where
  "sample_tree = Dir [(''App.swift'', File (Text ''import SwiftUI'')),
                      (''build'', Dir [(''Gen.swift'', File (Text '''')),
                                       (''sub'', Dir [(''Deep.swift'', File (Text ''''))])])]"

section \<open>Project architect\<close>

text \<open>
  \<^verbatim>\<open>str.lower\<close> on code points below 256: the ASCII capitals and the Latin-1 capitals.
\<close>

definition py_lower_char :: "char \<Rightarrow> char" where
  "py_lower_char c = (let n = of_char c :: nat in
     if (65 \<le> n \<and> n \<le> 90) \<or> (192 \<le> n \<and> n \<le> 222 \<and> n \<noteq> 215) then char_of (n + 32) else c)"

definition py_lower :: "string \<Rightarrow> string" where
  "py_lower s = map py_lower_char s"

text \<open>\<^verbatim>\<open>PurePath.suffix\<close> of a file name: the text from the last dot on, when that dot is
  neither the first nor the last character.\<close>

definition path_suffix :: "string \<Rightarrow> string" where
  "path_suffix name =
     (let post = rev (takeWhile (\<lambda>c. c \<noteq> CHR ''.'') (rev name)) in
      if CHR ''.'' \<in> set name \<and> post \<noteq> [] \<and> length post + 1 < length name
      then CHR ''.'' # post else [])"

text \<open>
  A recommendation is a pair of its type and its message.  The checks follow
  \<^verbatim>\<open>project_architect.py\<close>; what \<^verbatim>\<open>--verbose\<close> prints is left out.
\<close>

type_synonym recommendation = "string \<times> string"

definition structure_checks :: "(string \<times> string) list" where
  "structure_checks =
     [(''README.md'', ''Add a README.md with project overview and setup instructions''),
      (''.gitignore'', ''Add a .gitignore to exclude build artifacts and secrets''),
      (''.env.example'', ''Add a .env.example to document required environment variables''),
      (''CONTRIBUTING.md'', ''Add a CONTRIBUTING.md to guide contributors''),
      (''CHANGELOG.md'', ''Add a CHANGELOG.md to track version history'')]"

definition check_project_structure :: "fsnode \<Rightarrow> recommendation list" where
  "check_project_structure project_path =
     map (\<lambda>(filename, recommendation). (''structure'', recommendation))
       (filter (\<lambda>(filename, recommendation). \<not> exists project_path filename) structure_checks)"

definition check_code_quality :: "fsnode \<Rightarrow> recommendation list" where
  "check_code_quality project_path =
     (let test_dirs = [''tests'', ''test'', ''__tests__'', ''spec''];
          has_tests = list_ex (exists project_path) test_dirs;
          lint_configs = [''.eslintrc'', ''.eslintrc.js'', ''.eslintrc.json'', ''.eslintrc.yml'',
                          ''.pylintrc'', ''pyproject.toml'', ''.swiftlint.yml'', ''.golangci.yml''];
          has_linter = list_ex (exists project_path) lint_configs
      in (if \<not> has_tests
          then [(''quality'', ''Add a tests/ directory with unit and integration tests'')] else [])
       @ (if \<not> has_linter
          then [(''quality'', ''Add linter configuration (ESLint, Pylint, SwiftLint, etc.)'')] else []))"

text \<open>One iteration of the loop over \<^verbatim>\<open>env_files\<close>; reading \<^verbatim>\<open>.gitignore\<close> may raise.\<close>

definition check_env_file :: "fsnode \<Rightarrow> string \<Rightarrow> pyexn + recommendation list" where
  "check_env_file project_path env_file =
     (if exists project_path env_file then
        (case child project_path ''.gitignore'' of
           None \<Rightarrow> Inr []
         | Some gitignore_path \<Rightarrow>
             (case read_text gitignore_path of
                Inl e \<Rightarrow> Inl e
              | Inr gitignore_content \<Rightarrow>
                  if \<not> contains gitignore_content env_file \<and> \<not> contains gitignore_content ''.env''
                  then Inr [(''security'', ''Ensure '' @ env_file
                              @ '' is listed in .gitignore to avoid leaking secrets'')]
                  else Inr []))
      else Inr [])"

fun check_env_files :: "fsnode \<Rightarrow> string list \<Rightarrow> pyexn + recommendation list" where
  "check_env_files project_path [] = Inr []"
| "check_env_files project_path (env_file # rest) =
     (case check_env_file project_path env_file of
        Inl e \<Rightarrow> Inl e
      | Inr recs \<Rightarrow>
          (case check_env_files project_path rest of
             Inl e \<Rightarrow> Inl e
           | Inr recs' \<Rightarrow> Inr (recs @ recs')))"

definition check_security :: "fsnode \<Rightarrow> pyexn + recommendation list" where
  "check_security project_path =
     (let security_files = [''SECURITY.md'', ''.github/SECURITY.md''];
          has_security = list_ex (exists project_path) security_files;
          first = (if \<not> has_security
                   then [(''security'', ''Add a SECURITY.md to document vulnerability reporting process'')]
                   else [])
      in case check_env_files project_path [''.env'', ''.env.local'', ''.env.development''] of
           Inl e \<Rightarrow> Inl e
         | Inr recs \<Rightarrow> Inr (first @ recs))"

definition check_ci_cd :: "fsnode \<Rightarrow> recommendation list" where
  "check_ci_cd project_path =
     (let ci_paths = [''.github/workflows'', ''.circleci'', ''.gitlab-ci.yml'', ''Jenkinsfile'',
                      ''.travis.yml''];
          has_ci = list_ex (exists project_path) ci_paths
      in if \<not> has_ci
         then [(''devops'', ''Add CI/CD configuration (GitHub Actions, CircleCI, etc.)'')] else [])"

record metrics =
  total_files :: nat
  source_files :: nat
  test_files :: nat
  doc_files :: nat

definition keep_dir :: "string \<Rightarrow> bool" where
  "keep_dir d = (\<not> startswith d ''.'' \<and> d \<notin> set [''node_modules'', ''.git'', ''build'', ''dist''])"

text \<open>\<^verbatim>\<open>os.walk\<close> when the loop body prunes \<^verbatim>\<open>dirs\<close> in place: only kept directories are entered.\<close>

fun walk_pruned :: "string \<Rightarrow> fsnode \<Rightarrow> (string \<times> string list \<times> string list) list" where
  "walk_pruned base (File c) = []"
| "walk_pruned base (Dir es) =
     (base, dirnames es, filenames es)
       # concat (map (\<lambda>e. if keep_dir (fst e) then walk_pruned (path_join base (fst e)) (snd e) else []) es)"

text \<open>
  The body of the loop over \<^verbatim>\<open>files\<close> in \<^verbatim>\<open>compute_metrics\<close>.
\<close>

definition count_file :: "metrics \<Rightarrow> string \<Rightarrow> metrics" where
  "count_file m fname =
     (let m1 = m\<lparr>total_files := total_files m + 1\<rparr>;
          ext = py_lower (path_suffix fname);
          m2 = (if ext \<in> set [''.py'', ''.js'', ''.ts'', ''.swift'', ''.kt'', ''.go'', ''.dart''] then
                  (let m' = m1\<lparr>source_files := source_files m1 + 1\<rparr> in
                   if list_ex (\<lambda>kw. contains (py_lower fname) kw) [''test'', ''spec'', ''__test__'']
                   then m'\<lparr>test_files := test_files m' + 1\<rparr> else m')
                else m1)
      in if ext \<in> set [''.md'', ''.rst'', ''.txt''] then m2\<lparr>doc_files := doc_files m2 + 1\<rparr> else m2)"

definition compute_metrics :: "fsnode \<Rightarrow> metrics" where
  "compute_metrics project_path =
     foldl (\<lambda>m (root, dirs, files). foldl count_file m files)
       \<lparr>total_files = 0, source_files = 0, test_files = 0, doc_files = 0\<rparr>
       (walk_pruned ''.'' project_path)"

text \<open>
  \<^verbatim>\<open>main\<close>: the exit status, and the recommendations and metrics handed to
  \<^verbatim>\<open>print_report\<close>.  \<open>None\<close> as target is a path that does not exist.
\<close>

record architect_result =
  status :: nat
  recommendations :: "recommendation list"
  report_metrics :: "metrics option"

definition project_architect_main :: "fsnode option \<Rightarrow> pyexn + architect_result" where
  "project_architect_main target =
     (case target of
        None \<Rightarrow> Inr \<lparr>status = 1, recommendations = [], report_metrics = None\<rparr>
      | Some project_path \<Rightarrow>
          (let structure_recs = check_project_structure project_path;
               quality_recs = check_code_quality project_path
           in case check_security project_path of
                Inl e \<Rightarrow> Inl e
              | Inr security_recs \<Rightarrow>
                  (let cicd_recs = check_ci_cd project_path;
                       metrics = compute_metrics project_path;
                       all_recommendations = structure_recs @ quality_recs @ security_recs @ cicd_recs
                   in Inr \<lparr>status = (if all_recommendations = [] then 0 else 1),
                          recommendations = all_recommendations,
                          report_metrics = Some metrics\<rparr>)))"

section \<open>Architecture diagram generator\<close>

datatype diagram_format = Mermaid | Plantuml | Json

text \<open>\<^verbatim>\<open>sep.join(xs)\<close> with the slash as separator.\<close>

fun join_slash :: "string list \<Rightarrow> string" where
  "join_slash [] = []"
| "join_slash [x] = x"
| "join_slash (x # y # ys) = x @ ''/'' @ join_slash (y # ys)"

text \<open>
  A \<^verbatim>\<open>PurePosixPath\<close>: its root (\<^verbatim>\<open>''\<close>, \<^verbatim>\<open>'/'\<close> or \<^verbatim>\<open>'//'\<close>) and its parts after the root.
  Parsing drops empty components and \<^verbatim>\<open>'.'\<close> components.
\<close>

type_synonym pure_path = "string \<times> string list"

definition splitroot :: "string \<Rightarrow> string \<times> string" where
  "splitroot p =
     (if take 1 p \<noteq> ''/'' then ([], p)
      else if take 1 (drop 1 p) \<noteq> ''/'' \<or> take 1 (drop 2 p) = ''/'' then (''/'', drop 1 p)
      else (''//'', drop 2 p))"

definition Path :: "string \<Rightarrow> pure_path" where
  "Path p = (case splitroot p of (root, rel) \<Rightarrow>
     (root, filter (\<lambda>x. x \<noteq> [] \<and> x \<noteq> ''.'') (py_split rel ''/'')))"

definition path_str :: "pure_path \<Rightarrow> string" where
  "path_str p = (case p of (root, tail) \<Rightarrow>
     (let s = root @ join_slash tail in if s = [] then ''.'' else s))"

definition path_name :: "pure_path \<Rightarrow> string" where
  "path_name p = (case p of (root, tail) \<Rightarrow> if tail = [] then [] else last tail)"

text \<open>
  \<^verbatim>\<open>PurePath.with_suffix\<close> for a suffix that starts with a dot: a path with an empty name
  raises \<^verbatim>\<open>ValueError\<close>; the suffix is appended to a name that has none, and replaces
  the suffix of a name that has one.
\<close>

definition with_suffix :: "pure_path \<Rightarrow> string \<Rightarrow> pyexn + pure_path" where
  "with_suffix p new_suffix = (case p of (root, tail) \<Rightarrow>
     (let name = path_name p in
      if name = [] then Inl ValueError
      else
        (let old_suffix = path_suffix name;
             name' = (if old_suffix = [] then name @ new_suffix
                      else take (length name - length old_suffix) name @ new_suffix)
         in Inr (root, butlast tail @ [name']))))"

definition format_ext :: "diagram_format \<Rightarrow> string" where
  "format_ext f = (case f of Mermaid \<Rightarrow> ''md'' | Plantuml \<Rightarrow> ''puml'' | Json \<Rightarrow> ''json'')"

definition file_content :: "diagram_format \<Rightarrow> string \<Rightarrow> string \<Rightarrow> string" where
  "file_content f project_name diagram = (case f of
       Mermaid \<Rightarrow> ''# '' @ project_name @ '' Architecture Diagram\<newline>\<newline>```mermaid\<newline>''
                    @ diagram @ ''\<newline>```\<newline>''
     | Plantuml \<Rightarrow> diagram
     | Json \<Rightarrow> diagram)"

record diagram_result =
  diagram_status :: nat
  written :: "(string \<times> string) option"

text \<open>
  \<^verbatim>\<open>main\<close> of the diagram generator.  \<open>project_exists\<close> is \<^verbatim>\<open>project_path.exists()\<close>,
  \<open>diagram\<close> the text that the generator function of the chosen format returned, and
  \<open>write_ok\<close> says whether \<^verbatim>\<open>output_file.write_text(content)\<close> succeeds: it raises an
  \<^verbatim>\<open>OSError\<close> when the directory of the file does not exist or the file cannot be
  created, and then nothing is written.  The result records the file written.
\<close>

definition diagram_main ::
  "bool \<Rightarrow> string \<Rightarrow> string \<Rightarrow> diagram_format \<Rightarrow> string \<Rightarrow> bool
     \<Rightarrow> pyexn + diagram_result" where
  "diagram_main project_exists project_name output f diagram write_ok =
     (if \<not> project_exists then Inr \<lparr>diagram_status = 1, written = None\<rparr>
      else
        (let ext = format_ext f;
             content = file_content f project_name diagram
         in case with_suffix (Path output) (''.'' @ ext) of
              Inl e \<Rightarrow> Inl e
            | Inr output_file \<Rightarrow>
                if write_ok
                then Inr \<lparr>diagram_status = 0, written = Some (path_str output_file, content)\<rparr>
                else Inl OSError))"

text \<open>
  The name of the file that a run wrote, if it wrote one.
\<close>

definition written_name :: "pyexn + diagram_result \<Rightarrow> string option" where
  "written_name r = (case r of Inl e \<Rightarrow> None | Inr d \<Rightarrow> map_option fst (written d))"

section \<open>Dependency analyzer\<close>

text \<open>
  The value that \<^verbatim>\<open>json.loads\<close> returns.  An object is a \<^verbatim>\<open>dict\<close>, kept as an
  association list in insertion order; numbers are kept as their text.
\<close>

datatype json = JNull | JBool bool | JNum string | JStr string
  | JArr "json list" | JObj "(string \<times> json) list"

text \<open>
  \<^verbatim>\<open>data.get(key, {})\<close>: only a \<^verbatim>\<open>dict\<close> has \<^verbatim>\<open>get\<close>; on every other value the
  attribute lookup raises \<^verbatim>\<open>AttributeError\<close>.
\<close>

fun json_get :: "json \<Rightarrow> string \<Rightarrow> pyexn + json" where
  "json_get (JObj kvs) key = (case map_of kvs key of None \<Rightarrow> Inr (JObj []) | Some v \<Rightarrow> Inr v)"
| "json_get v key = Inl AttributeError"

text \<open>\<^verbatim>\<open>list(v.keys())\<close> and the entries of \<open>v\<close>: again only for a \<^verbatim>\<open>dict\<close>.\<close>

fun json_items :: "json \<Rightarrow> pyexn + (string \<times> json) list" where
  "json_items (JObj kvs) = Inr kvs"
| "json_items v = Inl AttributeError"

text \<open>\<^verbatim>\<open>{**a, **b}\<close>: the entries of \<open>a\<close>, updated by \<open>b\<close>, then the new keys of \<open>b\<close>.\<close>

definition dict_merge :: "(string \<times> json) list \<Rightarrow> (string \<times> json) list \<Rightarrow> (string \<times> json) list" where
  "dict_merge a b =
     map (\<lambda>(k, v). (k, case map_of b k of None \<Rightarrow> v | Some v' \<Rightarrow> v')) a
     @ filter (\<lambda>(k, v). k \<notin> fst ` set a) b"

datatype manifest =
    Npm (runtime: "string list") (dev: "string list") (peer: "string list")
        (versions: "(string \<times> json) list")
  | Pip "string list"
  | GoMod "(string \<times> string) list"
  | SwiftPM "string list"

text \<open>
  The result of one manifest parser: the lines it printed to the error stream and the
  dictionary it returned (\<open>None\<close> for the empty dictionary), or the exception that left
  the parser.  The warning lines are kept without the text of the exception.
\<close>

type_synonym parse_result = "pyexn + (string list \<times> manifest option)"

text \<open>The \<^verbatim>\<open>try\<close> body of \<^verbatim>\<open>parse_package_json\<close> after the file has been read.\<close>

definition package_json_body :: "(string \<Rightarrow> json option) \<Rightarrow> string \<Rightarrow> pyexn + manifest" where
  "package_json_body loads txt =
     (case loads txt of
        None \<Rightarrow> Inl JSONDecodeError
      | Some data \<Rightarrow>
          (case json_get data ''dependencies'' of Inl e \<Rightarrow> Inl e | Inr d1 \<Rightarrow>
           case json_items d1 of Inl e \<Rightarrow> Inl e | Inr deps \<Rightarrow>
           case json_get data ''devDependencies'' of Inl e \<Rightarrow> Inl e | Inr d2 \<Rightarrow>
           case json_items d2 of Inl e \<Rightarrow> Inl e | Inr devs \<Rightarrow>
           case json_get data ''peerDependencies'' of Inl e \<Rightarrow> Inl e | Inr d3 \<Rightarrow>
           case json_items d3 of Inl e \<Rightarrow> Inl e | Inr peers \<Rightarrow>
             Inr (Npm (map fst deps) (map fst devs) (map fst peers) (dict_merge deps devs))))"

definition parse_package_json :: "(string \<Rightarrow> json option) \<Rightarrow> fsnode \<Rightarrow> parse_result" where
  "parse_package_json loads project_path =
     (case child project_path ''package.json'' of
        None \<Rightarrow> Inr ([], None)
      | Some pkg_file \<Rightarrow>
          (case (case read_text pkg_file of Inl e \<Rightarrow> Inl e | Inr txt \<Rightarrow> package_json_body loads txt) of
             Inr m \<Rightarrow> Inr ([], Some m)
           | Inl e \<Rightarrow>
               if e = JSONDecodeError \<or> e = OSError
               then Inr ([''  Warning: Could not parse package.json''], None)
               else Inl e))"

definition requirement_lines :: "string \<Rightarrow> string list" where
  "requirement_lines txt =
     filter (\<lambda>line. line \<noteq> [] \<and> \<not> startswith line ''#'') (map strip (splitlines txt))"

definition parse_requirements_txt :: "fsnode \<Rightarrow> parse_result" where
  "parse_requirements_txt project_path =
     (case child project_path ''requirements.txt'' of
        None \<Rightarrow> Inr ([], None)
      | Some req_file \<Rightarrow>
          (case read_text req_file of
             Inr txt \<Rightarrow> Inr ([], Some (Pip (requirement_lines txt)))
           | Inl e \<Rightarrow>
               if e = OSError
               then Inr ([''  Warning: Could not parse requirements.txt''], None)
               else Inl e))"

text \<open>\<^verbatim>\<open>s.split()\<close>: the maximal runs of non-whitespace characters.\<close>

fun py_words_aux :: "string \<Rightarrow> string \<Rightarrow> string list" where
  "py_words_aux acc [] = (if acc = [] then [] else [rev acc])"
| "py_words_aux acc (c # cs) =
     (if py_isspace c
      then (if acc = [] then py_words_aux [] cs else rev acc # py_words_aux [] cs)
      else py_words_aux (c # acc) cs)"

definition py_words :: "string \<Rightarrow> string list" where
  "py_words s = py_words_aux [] s"

text \<open>
  One line of \<^verbatim>\<open>go.mod\<close>: the state is the flag \<^verbatim>\<open>in_require\<close> and the modules
  found so far.
\<close>

definition go_mod_line :: "bool \<times> (string \<times> string) list \<Rightarrow> string \<Rightarrow> bool \<times> (string \<times> string) list" where
  "go_mod_line st raw =
     (case st of (in_require, modules) \<Rightarrow>
      (let line = strip raw in
       if startswith line ''require ('' then (True, modules)
       else if in_require then
         (if line = '')'' then (False, modules)
          else if line \<noteq> [] then
            (let parts = py_words line in
             if length parts \<ge> 2 then (in_require, modules @ [(parts ! 0, parts ! 1)])
             else (in_require, modules))
          else (in_require, modules))
       else if startswith line ''require '' \<and> \<not> endswith line ''('' then
         (let parts = py_words (drop 8 line) in
          if length parts \<ge> 2 then (in_require, modules @ [(parts ! 0, parts ! 1)])
          else (in_require, modules))
       else (in_require, modules)))"

definition parse_go_mod :: "fsnode \<Rightarrow> parse_result" where
  "parse_go_mod project_path =
     (case child project_path ''go.mod'' of
        None \<Rightarrow> Inr ([], None)
      | Some mod_file \<Rightarrow>
          (case read_text mod_file of
             Inr content \<Rightarrow>
               Inr ([], Some (GoMod (snd (foldl go_mod_line (False, []) (splitlines content)))))
           | Inl e \<Rightarrow>
               if e = OSError
               then Inr ([''  Warning: Could not parse go.mod''], None)
               else Inl e))"

definition parse_package_swift :: "fsnode \<Rightarrow> parse_result" where
  "parse_package_swift project_path =
     (case child project_path ''Package.swift'' of
        None \<Rightarrow> Inr ([], None)
      | Some pkg_file \<Rightarrow>
          (case read_text pkg_file of
             Inr content \<Rightarrow>
               Inr ([], Some (SwiftPM
                 (map strip (filter (\<lambda>line. contains line ''.package('' \<and> contains line ''url:'')
                                 (map strip (splitlines content))))))
           | Inl e \<Rightarrow>
               if e = OSError
               then Inr ([''  Warning: Could not parse Package.swift''], None)
               else Inl e))"

abbreviation apos :: string where "apos \<equiv> [CHR 0x27]"

definition deprecated :: "(string \<times> string) list" where
  "deprecated =
     [(''request'', ''Use '' @ apos @ ''axios'' @ apos @ '' or native fetch instead of the deprecated ''
                    @ apos @ ''request'' @ apos @ '' package''),
      (''moment'', ''Consider replacing '' @ apos @ ''moment'' @ apos @ '' with '' @ apos @ ''date-fns''
                   @ apos @ '' or '' @ apos @ ''dayjs'' @ apos @ '' for smaller bundle size''),
      (''lodash'', ''Consider using native JS methods or tree-shaken '' @ apos @ ''lodash-es'' @ apos
                   @ '' instead of '' @ apos @ ''lodash'' @ apos),
      (''node-uuid'', ''Replace '' @ apos @ ''node-uuid'' @ apos @ '' with the '' @ apos @ ''uuid''
                      @ apos @ '' package'')]"

definition dep_name :: "string \<Rightarrow> string" where
  "dep_name dep = strip (hd (py_split (hd (py_split (hd (py_split dep ''@'')) ''>='')) ''==''))"

definition detect_outdated_patterns :: "string list \<Rightarrow> (string \<times> string) list" where
  "detect_outdated_patterns dependencies =
     List.map_filter (\<lambda>dep. case map_of deprecated (dep_name dep) of
                              None \<Rightarrow> None
                            | Some message \<Rightarrow> Some (dep_name dep, message)) dependencies"

text \<open>
  A text without the whitespace around it: the leading whitespace is dropped, and as
  many characters are taken off the end as there is whitespace at the end.
\<close>

definition trim :: "string \<Rightarrow> string" where
  "trim s = (let t = dropWhile py_isspace s
             in take (length t - length (takeWhile py_isspace (rev t))) t)"

text \<open>
  The package identifier stripped of its version constraint, in the words of the
  specification.  A constraint begins with \<^verbatim>\<open>@\<close> (the version of an npm package; a
  leading \<^verbatim>\<open>@\<close> is the scope of the name) or with a comparison operator of a
  requirement (\<^verbatim>\<open><\<close>, \<^verbatim>\<open><=\<close>, \<^verbatim>\<open>>\<close>, \<^verbatim>\<open>>=\<close>, \<^verbatim>\<open>==\<close>, \<^verbatim>\<open>!=\<close>, \<^verbatim>\<open>~=\<close>).
\<close>

definition constraint_char :: "char \<Rightarrow> bool" where
  "constraint_char c = (c \<in> set ''@<>=!~'')"

definition bare_identifier :: "string \<Rightarrow> string" where
  "bare_identifier dep =
     trim (case dep of
             [] \<Rightarrow> []
           | c # cs \<Rightarrow> if c = CHR ''@'' then c # takeWhile (\<lambda>x. \<not> constraint_char x) cs
                       else takeWhile (\<lambda>x. \<not> constraint_char x) dep)"

text \<open>
  The package identifier cut at the three separators that the analyzer knows: the text
  before the first \<^verbatim>\<open>@\<close>, \<^verbatim>\<open>>=\<close> or \<^verbatim>\<open>==\<close>.
\<close>

fun cut_version :: "string \<Rightarrow> string" where
  "cut_version [] = []"
| "cut_version (c # cs) =
     (if prefix ''@'' (c # cs) \<or> prefix ''>='' (c # cs) \<or> prefix ''=='' (c # cs) then []
      else c # cut_version cs)"

record analyzer_result =
  analyzer_status :: nat
  all_deps :: "(string \<times> manifest) list"
  warnings :: "(string \<times> string) list"
  analyzer_stderr :: "string list"

text \<open>The packages that \<^verbatim>\<open>main\<close> collects from one manifest.\<close>

fun packages_of :: "manifest \<Rightarrow> string list" where
  "packages_of (Npm r d p v) = r"
| "packages_of (Pip pkgs) = pkgs"
| "packages_of (GoMod ms) = []"
| "packages_of (SwiftPM pkgs) = []"

text \<open>The loop that fills \<^verbatim>\<open>all_packages\<close> from the manifests found.\<close>

definition all_packages :: "(string \<times> manifest) list \<Rightarrow> string list" where
  "all_packages deps = concat (map (\<lambda>(key, data). packages_of data) deps)"

definition add_manifest :: "string \<Rightarrow> manifest option \<Rightarrow> (string \<times> manifest) list \<Rightarrow> (string \<times> manifest) list" where
  "add_manifest key m deps = (case m of None \<Rightarrow> deps | Some d \<Rightarrow> deps @ [(key, d)])"

text \<open>
  \<^verbatim>\<open>main\<close> of the dependency analyzer: \<open>loads\<close> is \<^verbatim>\<open>json.loads\<close> (\<open>None\<close> for a
  \<^verbatim>\<open>JSONDecodeError\<close>), \<open>None\<close> as target a path that does not exist, \<open>analyze\<close> the
  flag \<^verbatim>\<open>--analyze\<close>.  An exception that leaves a parser leaves \<^verbatim>\<open>main\<close>.
  The error line for a missing path is kept without the path; the report that is
  printed from \<open>all_deps\<close> and \<open>warnings\<close> is left out.
\<close>

definition dependency_analyzer_main ::
  "(string \<Rightarrow> json option) \<Rightarrow> fsnode option \<Rightarrow> bool \<Rightarrow> pyexn + analyzer_result" where
  "dependency_analyzer_main loads target analyze =
     (case target of
        None \<Rightarrow> Inr \<lparr>analyzer_status = 1, all_deps = [], warnings = [],
                      analyzer_stderr = [''Error: Project path does not exist.'']\<rparr>
      | Some project_path \<Rightarrow>
          (case parse_package_json loads project_path of Inl e \<Rightarrow> Inl e | Inr (err1, npm_deps) \<Rightarrow>
           case parse_requirements_txt project_path of Inl e \<Rightarrow> Inl e | Inr (err2, pip_deps) \<Rightarrow>
           case parse_go_mod project_path of Inl e \<Rightarrow> Inl e | Inr (err3, go_deps) \<Rightarrow>
           case parse_package_swift project_path of Inl e \<Rightarrow> Inl e | Inr (err4, swift_deps) \<Rightarrow>
             (let deps = add_manifest ''swift'' swift_deps
                           (add_manifest ''go'' go_deps
                             (add_manifest ''pip'' pip_deps
                               (add_manifest ''npm'' npm_deps [])));
                  err = err1 @ err2 @ err3 @ err4
              in if deps = []
                 then Inr \<lparr>analyzer_status = 0, all_deps = [], warnings = [], analyzer_stderr = err\<rparr>
                 else
                   Inr \<lparr>analyzer_status = 0, all_deps = deps,
                        warnings = (if analyze then detect_outdated_patterns (all_packages deps)
                                    else []),
                        analyzer_stderr = err\<rparr>)))"

definition request_axios :: json where
  "request_axios = JObj [(''dependencies'', JObj [(''request'', JStr ''^1.0''), (''axios'', JStr ''^1.0'')])]"

definition npm_project :: "string \<Rightarrow> fsnode" where
  "npm_project txt = Dir [(''package.json'', File (Text txt))]"

text \<open>The text before the first occurrence of a separator.\<close>

fun before :: "string \<Rightarrow> string \<Rightarrow> string" where
  "before sep [] = []"
| "before sep (c # cs) = (if prefix sep (c # cs) then [] else c # before sep cs)"

text \<open>
  The package file of the specification's example, the value that \<^verbatim>\<open>json.loads\<close>
  returns for it, and a \<^verbatim>\<open>json.loads\<close> that knows this one text.
\<close>

definition request_axios_text :: string where
  \<open>request_axios_text = ''{"dependencies":{"request":"^1.0","axios":"^1.0"}}''\<close>

definition deny_list :: "string list" where
  "deny_list = [''request'', ''moment'', ''lodash'', ''node-uuid'']"

definition sample_loads :: "string \<Rightarrow> json option" where
  "sample_loads t = (if t = request_axios_text then Some request_axios else None)"

text \<open>A project whose requirements name two deny-listed packages with other operators.\<close>

definition pip_project :: fsnode where
  "pip_project = Dir [(''requirements.txt'', File (Text ''lodash<5\<newline>moment~=2.29\<newline>''))]"

section \<open>Manifest deduplicator\<close>

text \<open>
  \<^verbatim>\<open>s.find(sub, start)\<close>: the index of the first occurrence of \<open>sub\<close> at or after
  \<open>start\<close>, or \<open>-1\<close>; a negative \<open>start\<close> counts from the end.
\<close>

fun first_occ :: "string \<Rightarrow> string \<Rightarrow> nat option" where
  "first_occ sub [] = (if sub = [] then Some 0 else None)"
| "first_occ sub (c # cs) =
     (if prefix sub (c # cs) then Some 0 else map_option Suc (first_occ sub cs))"

definition py_find :: "string \<Rightarrow> string \<Rightarrow> int \<Rightarrow> int" where
  "py_find s sub start =
     (let n = int (length s);
          st = (if start < 0 then max (n + start) 0 else start)
      in if st > n then - 1
         else (case first_occ sub (drop (nat st) s) of
                 None \<Rightarrow> - 1
               | Some i \<Rightarrow> st + int i))"

text \<open>\<^verbatim>\<open>s[i:j]\<close> with Python's treatment of negative and too large indices.\<close>

definition py_slice :: "string \<Rightarrow> int \<Rightarrow> int \<Rightarrow> string" where
  "py_slice s i j =
     (let n = int (length s);
          i' = (if i < 0 then max (n + i) 0 else min i n);
          j' = (if j < 0 then max (n + j) 0 else min j n)
      in take (nat (j' - i')) (drop (nat i') s))"

text \<open>
  The regular expression fragment \<^verbatim>\<open>.+?\<close> followed by a literal text: at least one
  character other than a newline, as few as possible, then the literal.  The result is
  the text matched by \<^verbatim>\<open>.+?\<close> and the text left after the literal.
\<close>

fun lazy_until :: "string \<Rightarrow> string \<Rightarrow> (string \<times> string) option" where
  "lazy_until lit [] = None"
| "lazy_until lit (c # cs) =
     (if c = CHR ''\<newline>'' then None
      else if prefix lit cs then Some ([c], drop (length lit) cs)
      else (case lazy_until lit cs of
              None \<Rightarrow> None
            | Some (m, r) \<Rightarrow> Some (c # m, r)))"

definition is_id_char :: "char \<Rightarrow> bool" where
  "is_id_char c = (c \<in> set ''ABCDEF0123456789'')"

abbreviation tabs4 :: string where
  "tabs4 \<equiv> [CHR 0x09, CHR 0x09, CHR 0x09, CHR 0x09]"

text \<open>
  A match of \<^verbatim>\<open>file_pattern\<close> at the start of a text: four tabs, the longest run of
  identifier characters (it must be followed by a blank, so a shorter run cannot match
  either), \<^verbatim>\<open> /* \<close>, then lazily the file name up to \<^verbatim>\<open>.swift in Sources */,\<close>.
  The result is the pair of groups and the text after the match.
\<close>

definition match_entry :: "string \<Rightarrow> ((string \<times> string) \<times> string) option" where
  "match_entry s =
     (if prefix tabs4 s then
        (let t = drop 4 s;
             file_id = takeWhile is_id_char t;
             t1 = dropWhile is_id_char t
         in if file_id = [] then None
            else if prefix '' /* '' t1 then
              (case lazy_until ''.swift in Sources */,'' (drop 4 t1) of
                 None \<Rightarrow> None
               | Some (m, r) \<Rightarrow> Some ((file_id, m @ ''.swift''), r))
            else None)
      else None)"

text \<open>\<^verbatim>\<open>re.findall(file_pattern, text)\<close>: the groups of the leftmost non-overlapping matches.\<close>

function findall_entries :: "string \<Rightarrow> (string \<times> string) list" where
  "findall_entries [] = []"
| "findall_entries (c # cs) =
     (case match_entry (c # cs) of
        Some (g, rest) \<Rightarrow> g # findall_entries rest
      | None \<Rightarrow> findall_entries cs)"
  by pat_completeness auto
termination
proof (relation "measure length")
  show "wf (measure length)" by simp
next
  fix c :: char and cs x2 x y
  assume m: "match_entry (c # cs) = Some x2" and x: "(x, y) = x2"
  have lz: "length r < length s" if "lazy_until lit s = Some (mm, r)" for lit s mm r
    using that by (induction s arbitrary: mm) (auto split: if_splits option.splits)
  from m x obtain mm where
    l: "lazy_until ''.swift in Sources */,'' (drop 4 (dropWhile is_id_char (drop 4 (c # cs))))
          = Some (mm, y)"
    unfolding match_entry_def Let_def by (auto split: if_splits option.splits)
  have "length y < length (drop 4 (dropWhile is_id_char (drop 4 (c # cs))))"
    using lz [OF l] .
  also have "\<dots> \<le> length (dropWhile is_id_char (drop 4 (c # cs)))" by simp
  also have "\<dots> \<le> length (drop 4 (c # cs))" by (rule length_dropWhile_le)
  also have "\<dots> \<le> length (c # cs)" by simp
  finally show "(y, c # cs) \<in> measure length" by simp
next
  fix c :: char and cs
  show "(cs, c # cs) \<in> measure length" by simp
qed

text \<open>
  The loop over \<^verbatim>\<open>matches\<close>: \<^verbatim>\<open>files_to_keep\<close> maps a file name to the identifier
  seen first, \<^verbatim>\<open>files_to_remove\<close> lists the identifier of every later entry.
\<close>

definition keep_remove_step ::
  "(string \<times> string) list \<times> string list \<Rightarrow> string \<times> string
     \<Rightarrow> (string \<times> string) list \<times> string list" where
  "keep_remove_step st entry =
     (case st of (files_to_keep, files_to_remove) \<Rightarrow>
      case entry of (file_id, filename) \<Rightarrow>
        if filename \<notin> fst ` set files_to_keep
        then (files_to_keep @ [(filename, file_id)], files_to_remove)
        else (files_to_keep, files_to_remove @ [file_id]))"

definition keep_remove ::
  "(string \<times> string) list \<Rightarrow> (string \<times> string) list \<times> string list" where
  "keep_remove matches = foldl keep_remove_step ([], []) matches"

definition files_to_keep :: "(string \<times> string) list \<Rightarrow> (string \<times> string) list" where
  "files_to_keep matches = fst (keep_remove matches)"

definition files_to_remove :: "(string \<times> string) list \<Rightarrow> string list" where
  "files_to_remove matches = snd (keep_remove matches)"

text \<open>
  A match of the removal pattern of \<open>file_id\<close> at the start of a text: four tabs, the
  identifier, \<^verbatim>\<open> /* \<close>, lazily some text, \<^verbatim>\<open> in Sources */,\<close> and a newline.  The
  result is the text after the match.
\<close>

definition match_line :: "string \<Rightarrow> string \<Rightarrow> string option" where
  "match_line file_id s =
     (let pre = tabs4 @ file_id @ '' /* '' in
      if prefix pre s
      then map_option snd (lazy_until '' in Sources */,\<newline>'' (drop (length pre) s))
      else None)"

text \<open>\<^verbatim>\<open>re.sub(pattern, '', text)\<close>: the leftmost non-overlapping matches are deleted.\<close>

function re_sub_line :: "string \<Rightarrow> string \<Rightarrow> string" where
  "re_sub_line file_id [] = []"
| "re_sub_line file_id (c # cs) =
     (case match_line file_id (c # cs) of
        Some rest \<Rightarrow> re_sub_line file_id rest
      | None \<Rightarrow> c # re_sub_line file_id cs)"
  by pat_completeness auto
termination
proof (relation "measure (\<lambda>(file_id, s). length s)")
  show "wf (measure (\<lambda>(file_id :: string, s :: string). length s))" by simp
next
  fix file_id :: string and c :: char and cs rest
  assume m: "match_line file_id (c # cs) = Some rest"
  have lz: "length r < length s" if "lazy_until lit s = Some (mm, r)" for lit s mm r
    using that by (induction s arbitrary: mm) (auto split: if_splits option.splits)
  from m obtain mm where
    l: "lazy_until '' in Sources */,\<newline>'' (drop (length (tabs4 @ file_id @ '' /* '')) (c # cs))
          = Some (mm, rest)"
    unfolding match_line_def Let_def by (auto split: if_splits)
  have "length rest < length (drop (length (tabs4 @ file_id @ '' /* '')) (c # cs))"
    using lz [OF l] .
  also have "\<dots> \<le> length (c # cs)" by simp
  finally show "((file_id, rest), (file_id, c # cs)) \<in> measure (\<lambda>(file_id, s). length s)"
    by simp
next
  fix file_id :: string and c :: char and cs
  show "((file_id, cs), (file_id, c # cs)) \<in> measure (\<lambda>(file_id, s). length s)" by simp
qed

definition main_sources_marker :: string where
  "main_sources_marker = ''DD9B493FC570EE3F155BC4F2 /* Sources */ = {''"

text \<open>The text in which the script looks for entries, when it finds the marker.\<close>

definition sources_section :: "string \<Rightarrow> string" where
  "sources_section content =
     (let main_sources_start = py_find content main_sources_marker 0;
          files_start = py_find content ''files = ('' main_sources_start;
          files_end = py_find content '');'' files_start
      in py_slice content files_start files_end)"

definition matches :: "string \<Rightarrow> (string \<times> string) list" where
  "matches content = findall_entries (sources_section content)"

record fix_result =
  fix_status :: nat
  removed :: "string list"
  written_content :: "string option"

text \<open>
  The script on the content of the project file: without the marker it exits with
  status 1 and writes nothing; otherwise it writes the content from which the lines of
  every identifier in \<^verbatim>\<open>files_to_remove\<close> have been deleted, one identifier after the
  other, over the whole content.
\<close>

definition fix_duplicates :: "string \<Rightarrow> fix_result" where
  "fix_duplicates content =
     (if py_find content main_sources_marker 0 = - 1
      then \<lparr>fix_status = 1, removed = [], written_content = None\<rparr>
      else
        (let ids = files_to_remove (matches content);
             new_content = foldl (\<lambda>text file_id. re_sub_line file_id text) content ids
         in \<lparr>fix_status = 0, removed = ids, written_content = Some new_content\<rparr>))"

text \<open>An entry line of a build phase, as the project file writes it.\<close>

definition entry_line :: "string \<Rightarrow> string \<Rightarrow> string" where
  "entry_line file_id name = tabs4 @ file_id @ '' /* '' @ name @ '' in Sources */,\<newline>''"

text \<open>
  A project file with two build phases.  The phase of another target comes first and
  lists \<^verbatim>\<open>A.swift\<close> under the identifier \<^verbatim>\<open>BB22\<close>; the main phase lists the given
  entries.
\<close>

definition sample_project :: "string list \<Rightarrow> string" where
  "sample_project entries =
     ''EE55 /* Sources */ = {\<newline>files = (\<newline>'' @ entry_line ''BB22'' ''A.swift'' @ '');\<newline>};\<newline>''
     @ ''DD9B493FC570EE3F155BC4F2 /* Sources */ = {\<newline>''
     @ ''files = (\<newline>'' @ concat entries @ '');\<newline>};\<newline>''"

definition dup_project :: string where
  "dup_project = sample_project [entry_line ''AA11'' ''A.swift'', entry_line ''CC33'' ''B.swift'',
                                 entry_line ''BB22'' ''A.swift'']"

text \<open>The same file after the run: no line of \<^verbatim>\<open>BB22\<close> is left, in either phase.\<close>

definition dup_project_fixed :: string where
  "dup_project_fixed =
     ''EE55 /* Sources */ = {\<newline>files = (\<newline>'' @ '');\<newline>};\<newline>''
     @ ''DD9B493FC570EE3F155BC4F2 /* Sources */ = {\<newline>''
     @ ''files = (\<newline>'' @ entry_line ''AA11'' ''A.swift'' @ entry_line ''CC33'' ''B.swift''
     @ '');\<newline>};\<newline>''"

text \<open>
  The positions, by number, of the entries whose file name occurs in an earlier entry.
\<close>

definition later_indices :: "(string \<times> string) list \<Rightarrow> nat list" where
  "later_indices ms = filter (\<lambda>k. snd (ms ! k) \<in> snd ` set (take k ms)) [0..<length ms]"

text \<open>
  The content of the project file after a run: a run that writes nothing leaves it as it was.
\<close>

definition content_after :: "string \<Rightarrow> fix_result \<Rightarrow> string" where
  "content_after content r = (case written_content r of None \<Rightarrow> content | Some c \<Rightarrow> c)"

text \<open>
  The text before the marker of the main build phase; it lies outside the section in
  which the script looks for entries.
\<close>

definition before_marker :: "string \<Rightarrow> string" where
  "before_marker content = take (nat (py_find content main_sources_marker 0)) content"

text \<open>
  The sample project cut around the entry line of the other target.
\<close>

definition other_phase_head :: string where
  "other_phase_head = ''EE55 /* Sources */ = {\<newline>files = (\<newline>''"

definition after_other_entry :: string where
  "after_other_entry =
     '');\<newline>};\<newline>DD9B493FC570EE3F155BC4F2 /* Sources */ = {\<newline>files = (\<newline>''
     @ entry_line ''AA11'' ''A.swift'' @ entry_line ''CC33'' ''B.swift''
     @ entry_line ''BB22'' ''A.swift'' @ '');\<newline>};\<newline>''"

text \<open>
  A project file whose main build phase lists the same line of \<^verbatim>\<open>A.swift\<close> twice,
  under the one identifier \<^verbatim>\<open>AA11\<close>.
\<close>

definition same_id_project :: string where
  "same_id_project = sample_project [entry_line ''AA11'' ''A.swift'', entry_line ''CC33'' ''B.swift'',
                                     entry_line ''AA11'' ''A.swift'']"

text \<open>
  A project file whose second entry of \<^verbatim>\<open>A.swift\<close> has a blank after the comma, and one
  in which a line of the identifier to remove holds the text \<^verbatim>\<open>);\<close>, so that the
  section found ends there.
\<close>

definition blank_project :: string where
  "blank_project = sample_project [entry_line ''AA11'' ''A.swift'',
                                   tabs4 @ ''DD44 /* A.swift in Sources */, \<newline>'']"

definition shifting_project :: string where
  "shifting_project = sample_project [entry_line ''AA11'' ''A.swift'', entry_line ''DD44'' ''A.swift'',
                                      entry_line ''DD44'' ''x);'',
                                      entry_line ''CC33'' ''C.swift'', entry_line ''EE66'' ''C.swift'']"

section \<open>Properties\<close>

subsection \<open>Duplicate detection\<close>

lemma by_name_add_keys:
  "map fst (by_name_add m k p) = (if k \<in> set (map fst m) then map fst m else map fst m @ [k])"
  by (induction m k p rule: by_name_add.induct) auto

lemma by_name_add_map_of:
  "map_of (by_name_add m k p) =
     (map_of m)(k \<mapsto> (case map_of m k of None \<Rightarrow> [p] | Some ps \<Rightarrow> ps @ [p]))"
  by (induction m k p rule: by_name_add.induct) (auto simp: fun_eq_iff)

lemma by_name_add_distinct:
  "distinct (map fst m) \<Longrightarrow> distinct (map fst (by_name_add m k p))"
  by (simp add: by_name_add_keys)

lemma by_name_inv:
  "distinct (map fst (by_name ps)) \<and>
   (\<forall>n. map_of (by_name ps) n = (if group_of ps n = [] then None else Some (group_of ps n)))"
proof (induction ps rule: rev_induct)
  case Nil
  show ?case by (simp add: by_name_def group_of_def)
next
  case (snoc p ps)
  have step: "by_name (ps @ [p]) = by_name_add (by_name ps) (basename p) p"
    by (simp add: by_name_def)
  show ?case
    using snoc by (auto simp: step by_name_add_distinct by_name_add_map_of group_of_def)
qed

lemma map_of_filter_values:
  "distinct (map fst m) \<Longrightarrow>
   map_of (filter (\<lambda>(k, v). P v) m) k =
     (case map_of m k of None \<Rightarrow> None | Some v \<Rightarrow> if P v then Some v else None)"
proof (induction m)
  case Nil
  show ?case by simp
next
  case (Cons e m)
  obtain k' v' where e: "e = (k', v')" by (cases e)
  have notin: "k' \<notin> fst ` set m" using Cons.prems e by simp
  have "map_of m k' = None" using notin by (simp add: map_of_eq_None_iff)
  then show ?case using Cons e by (auto split: option.splits)
qed

text \<open>
  C2: duplicate detection groups the collected paths by basename and reports exactly
  the groups with more than one member, each with all its paths (so with its occurrence
  count); for paths with basenames A.swift, B.swift, A.swift the duplicate set is exactly
  A.swift with its two occurrences.
\<close>

theorem duplicates_groups:
  "map_of (duplicates ps) n =
     (if length (group_of ps n) > 1 then Some (group_of ps n) else None)
   \<and> distinct (map fst (duplicates ps))
   \<and> (basename p1 = ''A.swift'' \<and> basename p2 = ''B.swift'' \<and> basename p3 = ''A.swift''
        \<longrightarrow> duplicates [p1, p2, p3] = [(''A.swift'', [p1, p3])])"
proof (intro conjI impI)
  have d: "distinct (map fst (by_name ps))" using by_name_inv by blast
  have m: "map_of (by_name ps) n = (if group_of ps n = [] then None else Some (group_of ps n))"
    using by_name_inv by blast
  show "map_of (duplicates ps) n =
     (if length (group_of ps n) > 1 then Some (group_of ps n) else None)"
    unfolding duplicates_def using map_of_filter_values [OF d, of "\<lambda>paths. length paths > 1" n] m
    by auto
  show "distinct (map fst (duplicates ps))"
    unfolding duplicates_def using d by (simp add: distinct_map_filter)
next
  assume "basename p1 = ''A.swift'' \<and> basename p2 = ''B.swift'' \<and> basename p3 = ''A.swift''"
  then show "duplicates [p1, p2, p3] = [(''A.swift'', [p1, p3])]"
    by (simp add: duplicates_def by_name_def)
qed

theorem duplicates_groups_witness:
  "basename ''a/A.swift'' = ''A.swift'' \<and> basename ''B.swift'' = ''B.swift''
   \<and> basename ''b/c/A.swift'' = ''A.swift''
   \<and> duplicates [''a/A.swift'', ''B.swift'', ''b/c/A.swift''] = [(''A.swift'', [''a/A.swift'', ''b/c/A.swift''])]"
  using duplicates_groups [of "[]" "[]" "''a/A.swift''" "''B.swift''" "''b/c/A.swift''"]
  by (simp add: basename_def)

subsection \<open>Path-hygiene check\<close>

lemma py_split_aux_nonempty: "py_split_aux sep acc s \<noteq> []"
  by (induction sep acc s rule: py_split_aux.induct) auto

lemma py_split_nonempty: "py_split s sep \<noteq> []"
  by (simp add: py_split_def py_split_aux_nonempty)

lemma violation_of_line_eq:
  "violation_of_line line =
     (if line_status line = ''A'' then
        (case line_path line of
           None \<Rightarrow> None
         | Some p \<Rightarrow> if endswith p ''.swift'' \<and> \<not> startswith p ''backup/'' \<and> \<not> allowed p
                     then Some p else None)
      else None)"
  using py_split_nonempty [of line "[tab]"]
  by (simp add: violation_of_line_def line_status_def line_path_def Let_def)

lemma map_filter_refine:
  "(\<And>x. f x = (case g x of None \<Rightarrow> None | Some y \<Rightarrow> if P y then Some y else None)) \<Longrightarrow>
   List.map_filter f xs = filter P (List.map_filter g xs)"
  by (induction xs) (auto simp: List.map_filter_simps split: option.splits)

lemma violations_mem:
  "v \<in> set (violations out) \<longleftrightarrow>
     (\<exists>line \<in> set (splitlines out). violation_of_line line = Some v)"
  by (force simp: violations_def List.map_filter_def image_iff)

lemma exit_status_violations:
  "exit_status (check_path_hygiene (Output out)) = (if violations out = [] then 0 else 1)"
  by (simp add: check_path_hygiene_def Let_def)

lemma stdout_violations:
  "v \<in> set (violations out) \<Longrightarrow> (''  - '' @ v) \<in> set (stdout (check_path_hygiene (Output out)))"
  by (auto simp: check_path_hygiene_def Let_def)

lemmas hygiene_eval =
  splitlines_def is_linebreak_def suffix_to_prefix
  line_status_def line_path_def py_split_def strip_def lstrip_def rstrip_def py_isspace_def
  endswith_def startswith_def allowed_def ALLOWED_RE_def match_literal_def match_mcp_def
  check_path_hygiene_def violations_def violation_of_line_def Let_def



lemma splitlines_aux_line:
  "\<forall>c \<in> set l. \<not> is_linebreak c \<Longrightarrow>
   splitlines_aux acc (l @ nl # rest) = (rev acc @ l) # splitlines_aux [] rest"
proof (induction l arbitrary: acc)
  case Nil
  have lb: "is_linebreak nl" by (simp add: is_linebreak_def)
  show ?case using lb by (cases rest) simp_all
next
  case (Cons c l)
  have c: "\<not> is_linebreak c" using Cons.prems by simp
  then have cr: "c \<noteq> CHR 0x0D" by (auto simp: is_linebreak_def)
  obtain d r where dr: "l @ nl # rest = d # r" by (cases "l @ nl # rest") simp_all
  have "splitlines_aux acc (c # d # r) = splitlines_aux (c # acc) (d # r)"
    using c cr by simp
  then show ?case using Cons.IH [of "c # acc"] Cons.prems dr by simp
qed

lemma splitlines_lines:
  "\<forall>l \<in> set ls. \<forall>c \<in> set l. \<not> is_linebreak c \<Longrightarrow>
   splitlines (concat (map (\<lambda>l. l @ [nl]) ls)) = ls"
proof (induction ls)
  case Nil
  show ?case by (simp add: splitlines_def)
next
  case (Cons l ls)
  have "splitlines_aux [] (l @ nl # concat (map (\<lambda>l. l @ [nl]) ls))
          = l # splitlines_aux [] (concat (map (\<lambda>l. l @ [nl]) ls))"
    using splitlines_aux_line [of l "[]"] Cons.prems by simp
  then show ?case using Cons by (simp add: splitlines_def)
qed

lemma py_split_aux_sep:
  "c \<notin> set s \<Longrightarrow> py_split_aux [c] acc (s @ c # rest) = (rev acc @ s) # py_split_aux [c] [] rest"
  by (induction s arbitrary: acc) auto

lemma py_split_aux_last:
  "c \<notin> set s \<Longrightarrow> py_split_aux [c] acc s = [rev acc @ s]"
  by (induction s arbitrary: acc) auto

lemma strip_id:
  assumes "s \<noteq> []" "\<not> py_isspace (hd s)" "\<not> py_isspace (last s)"
  shows "strip s = s"
proof -
  have l: "lstrip s = s" using assms(1,2) by (cases s) (simp_all add: lstrip_def)
  have "dropWhile py_isspace (rev s) = rev s"
    using assms(1,3) by (cases "rev s") (simp_all add: last_rev [symmetric] hd_rev)
  then show ?thesis using l by (simp add: strip_def rstrip_def)
qed

lemma plain_char:
  "\<not> needs_quoting c \<Longrightarrow> c \<noteq> tab \<and> \<not> is_linebreak c \<and> (py_isspace c \<longrightarrow> c = CHR '' '')"
proof -
  assume n: "\<not> needs_quoting c"
  have r: "32 \<le> (of_char c :: nat) \<and> (of_char c :: nat) < 127"
    using n by (auto simp: needs_quoting_def Let_def)
  have "c \<noteq> tab" using r by auto
  moreover have "\<not> is_linebreak c" using r by (auto simp: is_linebreak_def Let_def)
  moreover have "py_isspace c \<longrightarrow> c = CHR '' ''"
  proof
    assume "py_isspace c"
    then have "(of_char c :: nat) = 32" using r by (auto simp: py_isspace_def Let_def)
    then have "(of_char c :: nat) = of_char (CHR '' '')" by simp
    then show "c = CHR '' ''" by (rule injD [OF inj_of_char])
  qed
  ultimately show ?thesis by blast
qed

lemma plain_path_props:
  assumes "plain_path p"
  shows "c_quote p = p" "tab \<notin> set p" "\<forall>c \<in> set p. \<not> is_linebreak c" "strip p = p"
proof -
  have nl: "\<not> list_ex needs_quoting p" using assms unfolding plain_path_def by blast
  then have nq: "\<forall>c \<in> set p. \<not> needs_quoting c" by (simp add: list_ex_iff)
  show "c_quote p = p" using nl by (simp add: c_quote_def)
  show "tab \<notin> set p" using nq plain_char by blast
  show "\<forall>c \<in> set p. \<not> is_linebreak c" using nq plain_char by blast
  have ne: "p \<noteq> []" using assms unfolding plain_path_def by blast
  have h: "hd p \<noteq> CHR '' ''" and l: "last p \<noteq> CHR '' ''"
    using assms unfolding plain_path_def by blast+
  have "hd p \<in> set p" using ne by simp
  then have "\<not> needs_quoting (hd p)" using nq by blast
  then have "py_isspace (hd p) \<longrightarrow> hd p = CHR '' ''" using plain_char by blast
  then have h': "\<not> py_isspace (hd p)" using h by blast
  have "last p \<in> set p" using ne by simp
  then have "\<not> needs_quoting (last p)" using nq by blast
  then have "py_isspace (last p) \<longrightarrow> last p = CHR '' ''" using plain_char by blast
  then have l': "\<not> py_isspace (last p)" using l by blast
  show "strip p = p" using ne h' l' by (rule strip_id)
qed

lemma status_char:
  "(65 \<le> (of_char c :: nat) \<and> (of_char c :: nat) \<le> 90) \<or> (48 \<le> (of_char c :: nat) \<and> (of_char c :: nat) \<le> 57) \<Longrightarrow>
   c \<noteq> tab \<and> \<not> is_linebreak c \<and> \<not> py_isspace c"
  by (auto simp: is_linebreak_def py_isspace_def Let_def)

lemma valid_status_props:
  assumes "valid_status st"
  shows "tab \<notin> set st" "\<forall>c \<in> set st. \<not> is_linebreak c" "strip st = st"
proof -
  have a: "\<forall>c \<in> set st. c \<noteq> tab \<and> \<not> is_linebreak c \<and> \<not> py_isspace c"
    using assms status_char unfolding valid_status_def list_all_iff Let_def by blast
  show "tab \<notin> set st" using a by blast
  show "\<forall>c \<in> set st. \<not> is_linebreak c" using a by blast
  have ne: "st \<noteq> []" using assms by (simp add: valid_status_def)
  have "hd st \<in> set st" "last st \<in> set st" using ne by simp_all
  then have h: "\<not> py_isspace (hd st)" and l: "\<not> py_isspace (last st)" using a by blast+
  show "strip st = st" using ne h l by (rule strip_id)
qed

lemma plain_entry_line:
  assumes "plain_entry e"
  shows "name_status_line e = entry_text e @ [nl]"
    and "\<forall>c \<in> set (entry_text e). \<not> is_linebreak c"
proof -
  obtain st p q where e: "e = (st, p, q)" by (cases e)
  have st: "valid_status st" and p: "plain_path p" using assms e by (simp_all add: plain_entry_def)
  have tl: "\<not> is_linebreak tab" by (simp add: is_linebreak_def)
  show "name_status_line e = entry_text e @ [nl]"
    using assms e plain_path_props(1)
    by (auto simp: name_status_line_def entry_text_def plain_entry_def split: option.splits)
  show "\<forall>c \<in> set (entry_text e). \<not> is_linebreak c"
    using assms e tl valid_status_props(2) [OF st] plain_path_props(3)
    by (auto simp: entry_text_def plain_entry_def split: option.splits)
qed

lemma plain_entry_violation:
  assumes "plain_entry e"
  shows "violation_of_line (entry_text e) =
           (case e of (st, p, q) \<Rightarrow>
              if st = ''A'' \<and> endswith p ''.swift'' \<and> \<not> startswith p ''backup/'' \<and> \<not> allowed p
              then Some p else None)"
proof -
  obtain st p q where e: "e = (st, p, q)" by (cases e)
  have st: "valid_status st" and p: "plain_path p" using assms e by (simp_all add: plain_entry_def)
  have "\<exists>more. py_split (entry_text e) [tab] = st # p # more"
  proof (cases q)
    case None
    have "py_split_aux [tab] [] (st @ tab # p) = st # py_split_aux [tab] [] p"
      using py_split_aux_sep [of tab st "[]" p] valid_status_props(1) [OF st] by simp
    then show ?thesis
      using None e py_split_aux_last [of tab p "[]"] plain_path_props(2) [OF p]
      by (simp add: py_split_def entry_text_def)
  next
    case (Some p')
    have "py_split_aux [tab] [] (st @ tab # p @ tab # p')
            = st # py_split_aux [tab] [] (p @ tab # p')"
      using py_split_aux_sep [of tab st "[]" "p @ tab # p'"] valid_status_props(1) [OF st] by simp
    moreover have "py_split_aux [tab] [] (p @ tab # p') = p # py_split_aux [tab] [] p'"
      using py_split_aux_sep [of tab p "[]" p'] plain_path_props(2) [OF p] by simp
    ultimately show ?thesis using Some e by (simp add: py_split_def entry_text_def)
  qed
  then obtain more where s: "py_split (entry_text (st, p, q)) [tab] = st # p # more"
    unfolding e by blast
  show ?thesis
    unfolding e violation_of_line_def s Let_def
    using valid_status_props(3) [OF st] plain_path_props(4) [OF p]
    by simp
qed

lemma plain_violations:
  assumes "list_all plain_entry entries"
  shows "violations (name_status entries)
           = filter (\<lambda>p. \<not> allowed p \<and> \<not> startswith p ''backup/'') (added_swift_files entries)"
proof -
  have lines: "name_status entries = concat (map (\<lambda>l. l @ [nl]) (map entry_text entries))"
    using assms plain_entry_line(1)
    by (induction entries) (simp_all add: name_status_def)
  have "\<forall>l \<in> set (map entry_text entries). \<forall>c \<in> set l. \<not> is_linebreak c"
    using assms plain_entry_line(2) by (auto simp: list_all_iff)
  then have sl: "splitlines (name_status entries) = map entry_text entries"
    unfolding lines by (rule splitlines_lines)
  show ?thesis
    unfolding violations_def sl using assms
  proof (induction entries)
    case Nil
    show ?case by (simp add: List.map_filter_simps added_swift_files_def)
  next
    case (Cons e es)
    obtain st p q where e: "e = (st, p, q)" by (cases e)
    have pe: "plain_entry e" and rest: "list_all plain_entry es" using Cons.prems by simp_all
    show ?case
      using plain_entry_violation [OF pe] Cons.IH [OF rest] e
      by (auto simp: List.map_filter_simps added_swift_files_def)
  qed
qed

text \<open>
  C4 as stated fails in three ways.  A newly added Swift file under \<^verbatim>\<open>backup/\<close> lies
  outside every allow-listed prefix, yet the check passes with status 0.  A newly added
  Swift file whose path git prints in quotes is not recognised, and the check passes
  with status 0.  When git cannot be started, the exception is not caught and the exit
  status is 1, not 2.
\<close>

theorem hygiene_exit_counterexample:
  "added_swift_files [(''A'', ''backup/Foo.swift'', None)] = [''backup/Foo.swift'']
   \<and> \<not> allowed ''backup/Foo.swift''
   \<and> exit_status (check_path_hygiene (Output (name_status [(''A'', ''backup/Foo.swift'', None)]))) = 0
   \<and> added_swift_files [(''A'', cafe_swift, None)] = [cafe_swift]
   \<and> \<not> allowed cafe_swift \<and> \<not> startswith cafe_swift ''backup/''
   \<and> exit_status (check_path_hygiene (Output (name_status [(''A'', cafe_swift, None)]))) = 0
   \<and> exit_status (check_path_hygiene (Raised OSError)) = 1"
  by code_simp

text \<open>
  C4, amended: the check exits with status 2 when the git diff command exits with a
  non-zero status.  When git succeeds and prints every path verbatim, none beginning or
  ending with a blank, the check exits with status 1 when at least one newly added
  Swift file lies outside the allow-listed prefixes and not under \<^verbatim>\<open>backup/\<close>, and
  with status 0 when there is none; every such path is listed in the output.  A newly
  added \<^verbatim>\<open>Sources/App/Random/Foo.swift\<close> gives status 1 with the path listed, a newly
  added \<^verbatim>\<open>Tests/Foo.swift\<close> status 0.
\<close>

theorem hygiene_exit_status:
  "exit_status (check_path_hygiene (CalledProcessError e)) = 2
   \<and> (list_all plain_entry entries \<longrightarrow>
        exit_status (check_path_hygiene (Output (name_status entries))) =
          (if \<exists>p \<in> set (added_swift_files entries). \<not> allowed p \<and> \<not> startswith p ''backup/''
           then 1 else 0)
        \<and> (\<forall>p \<in> set (added_swift_files entries).
              \<not> allowed p \<and> \<not> startswith p ''backup/'' \<longrightarrow>
              (''  - '' @ p) \<in> set (stdout (check_path_hygiene (Output (name_status entries))))))
   \<and> exit_status (check_path_hygiene
         (Output (name_status [(''A'', ''Sources/App/Random/Foo.swift'', None)]))) = 1
   \<and> ''  - Sources/App/Random/Foo.swift''
        \<in> set (stdout (check_path_hygiene
              (Output (name_status [(''A'', ''Sources/App/Random/Foo.swift'', None)]))))
   \<and> exit_status (check_path_hygiene (Output (name_status [(''A'', ''Tests/Foo.swift'', None)]))) = 0"
proof (intro conjI impI ballI)
  show "exit_status (check_path_hygiene (CalledProcessError e)) = 2"
    by (simp add: check_path_hygiene_def)
  show "exit_status (check_path_hygiene
         (Output (name_status [(''A'', ''Sources/App/Random/Foo.swift'', None)]))) = 1"
    by code_simp
  show "''  - Sources/App/Random/Foo.swift''
        \<in> set (stdout (check_path_hygiene
              (Output (name_status [(''A'', ''Sources/App/Random/Foo.swift'', None)]))))"
    by code_simp
  show "exit_status (check_path_hygiene (Output (name_status [(''A'', ''Tests/Foo.swift'', None)]))) = 0"
    by code_simp
next
  assume pl: "list_all plain_entry entries"
  show "exit_status (check_path_hygiene (Output (name_status entries))) =
          (if \<exists>p \<in> set (added_swift_files entries). \<not> allowed p \<and> \<not> startswith p ''backup/''
           then 1 else 0)"
    by (auto simp: exit_status_violations plain_violations [OF pl] filter_empty_conv)
next
  fix p
  assume pl: "list_all plain_entry entries"
    and "p \<in> set (added_swift_files entries)"
    and "\<not> allowed p \<and> \<not> startswith p ''backup/''"
  then have "p \<in> set (violations (name_status entries))"
    by (simp add: plain_violations [OF pl])
  then show "(''  - '' @ p) \<in> set (stdout (check_path_hygiene (Output (name_status entries))))"
    by (rule stdout_violations)
qed

theorem hygiene_exit_status_witness:
  "exit_status (check_path_hygiene (Output (name_status sample_entries))) = 1
   \<and> (''  - Sources/App/Random/Foo.swift'')
        \<in> set (stdout (check_path_hygiene (Output (name_status sample_entries))))"
proof -
  have pl: "list_all plain_entry sample_entries" by code_simp
  have a: "added_swift_files sample_entries = [''Sources/App/Random/Foo.swift'']" by code_simp
  have b: "\<not> allowed ''Sources/App/Random/Foo.swift''
           \<and> \<not> startswith ''Sources/App/Random/Foo.swift'' ''backup/''"
    by code_simp
  note t = hygiene_exit_status [of "[]" sample_entries]
  from t pl have e: "exit_status (check_path_hygiene (Output (name_status sample_entries))) =
          (if \<exists>p \<in> set (added_swift_files sample_entries). \<not> allowed p \<and> \<not> startswith p ''backup/''
           then 1 else 0)" by blast
  from t pl have l: "\<forall>p \<in> set (added_swift_files sample_entries).
              \<not> allowed p \<and> \<not> startswith p ''backup/'' \<longrightarrow>
              (''  - '' @ p) \<in> set (stdout (check_path_hygiene (Output (name_status sample_entries))))"
    by blast
  have ex: "\<exists>p \<in> set (added_swift_files sample_entries). \<not> allowed p \<and> \<not> startswith p ''backup/''"
    using a b by simp
  have "exit_status (check_path_hygiene (Output (name_status sample_entries))) = 1"
    using e ex by (simp only: if_True)
  moreover have "(''  - '' @ ''Sources/App/Random/Foo.swift'')
        \<in> set (stdout (check_path_hygiene (Output (name_status sample_entries))))"
    using l a b by simp
  ultimately show ?thesis by simp
qed

text \<open>
  C9: a violation is only ever recorded for a diff line whose status is exactly
  \<^verbatim>\<open>A\<close> and whose path ends with \<^verbatim>\<open>.swift\<close> and does not start with \<^verbatim>\<open>backup/\<close>; when
  every line is a modified, deleted or renamed file, a non-Swift file or a file under
  \<^verbatim>\<open>backup/\<close>, there is no violation and the exit status is 0.
\<close>

theorem violations_only_added_swift:
  "(v \<in> set (violations out) \<longrightarrow>
      (\<exists>line \<in> set (splitlines out).
          line_status line = ''A'' \<and> line_path line = Some v
          \<and> endswith v ''.swift'' \<and> \<not> startswith v ''backup/''))
   \<and> ((\<forall>line \<in> set (splitlines out).
          line_status line \<noteq> ''A''
          \<or> (\<forall>p. line_path line = Some p \<longrightarrow> \<not> endswith p ''.swift'' \<or> startswith p ''backup/''))
        \<longrightarrow> violations out = [] \<and> exit_status (check_path_hygiene (Output out)) = 0)"
proof (intro conjI impI)
  assume "v \<in> set (violations out)"
  then obtain line where l: "line \<in> set (splitlines out)" and vl: "violation_of_line line = Some v"
    by (auto simp: violations_mem)
  from vl have "line_status line = ''A'' \<and> line_path line = Some v
          \<and> endswith v ''.swift'' \<and> \<not> startswith v ''backup/''"
    by (auto simp: violation_of_line_eq split: if_splits option.splits)
  with l show "\<exists>line \<in> set (splitlines out).
          line_status line = ''A'' \<and> line_path line = Some v
          \<and> endswith v ''.swift'' \<and> \<not> startswith v ''backup/''"
    by blast
next
  assume h: "\<forall>line \<in> set (splitlines out).
          line_status line \<noteq> ''A''
          \<or> (\<forall>p. line_path line = Some p \<longrightarrow> \<not> endswith p ''.swift'' \<or> startswith p ''backup/'')"
  have "\<And>line. line \<in> set (splitlines out) \<Longrightarrow> violation_of_line line = None"
    using h by (auto simp: violation_of_line_eq split: option.splits)
  then show "violations out = []"
    using violations_mem [of _ out] by (cases "violations out") force+
next
  assume h: "\<forall>line \<in> set (splitlines out).
          line_status line \<noteq> ''A''
          \<or> (\<forall>p. line_path line = Some p \<longrightarrow> \<not> endswith p ''.swift'' \<or> startswith p ''backup/'')"
  have "\<And>line. line \<in> set (splitlines out) \<Longrightarrow> violation_of_line line = None"
    using h by (auto simp: violation_of_line_eq split: option.splits)
  then have "violations out = []"
    using violations_mem [of _ out] by (cases "violations out") force+
  then show "exit_status (check_path_hygiene (Output out)) = 0"
    by (simp add: exit_status_violations)
qed

theorem violations_only_added_swift_witness:
  "violations diff_sample = [] \<and> exit_status (check_path_hygiene (Output diff_sample)) = 0
   \<and> ''Sources/App/Random/Foo.swift'' \<in> set (violations (''A'' @ [tab] @ ''Sources/App/Random/Foo.swift''))
   \<and> (\<exists>line \<in> set (splitlines (''A'' @ [tab] @ ''Sources/App/Random/Foo.swift'')).
          line_status line = ''A'' \<and> line_path line = Some ''Sources/App/Random/Foo.swift'')"
proof -
  have h: "\<forall>line \<in> set (splitlines diff_sample).
          line_status line \<noteq> ''A''
          \<or> (\<forall>p. line_path line = Some p \<longrightarrow> \<not> endswith p ''.swift'' \<or> startswith p ''backup/'')"
    by (simp add: diff_sample_def hygiene_eval)
  have m: "''Sources/App/Random/Foo.swift'' \<in> set (violations (''A'' @ [tab] @ ''Sources/App/Random/Foo.swift''))"
    by (simp add: hygiene_eval)
  show ?thesis
    using violations_only_added_swift [of "[]" diff_sample] h m
      violations_only_added_swift [of "''Sources/App/Random/Foo.swift''" "''A'' @ [tab] @ ''Sources/App/Random/Foo.swift''"]
    by blast
qed

subsection \<open>Tree collector\<close>

lemmas fs_eval =
  sample_tree_def scan_redundancy_swift_files_def scan_project_swift_files_def collect_swift_def
  dirnames_def filenames_def path_join_def startswith_def endswith_def suffix_to_prefix
  SKIP_REDUNDANCY_def SKIP_PROJECT_def

text \<open>
  C1: the collector is claimed never to yield a Swift file that lies directly inside an
  excluded directory.  Both collectors yield \<^verbatim>\<open>/repo/build/Gen.swift\<close>: the path of its
  directory, \<^verbatim>\<open>/repo/build\<close>, does not contain \<^verbatim>\<open>/build/\<close>.  Only the file deeper inside
  \<^verbatim>\<open>build\<close> is skipped.
\<close>

theorem collector_yields_file_inside_excluded_dir:
  "scan_redundancy_swift_files ''/repo'' sample_tree = [''/repo/App.swift'', ''/repo/build/Gen.swift'']
   \<and> scan_project_swift_files ''/repo'' sample_tree = [''/repo/App.swift'', ''/repo/build/Gen.swift'']"
  by (simp add: fs_eval)

subsection \<open>Project architect\<close>

lemmas architect_eval =
  project_architect_main_def check_project_structure_def structure_checks_def
  check_code_quality_def check_security_def check_env_file_def check_ci_cd_def
  compute_metrics_def exists_def child_def rel_parts_def py_split_def dirnames_def filenames_def
  Let_def

text \<open>
  C6: on an empty project directory the metrics report \<open>total_files = 0\<close>, the
  recommendations include the entries for the missing README.md, .gitignore, tests
  directory, linter configuration and CI/CD configuration, and the exit status is 1.
\<close>

theorem architect_empty_project:
  "\<exists>r m. project_architect_main (Some (Dir [])) = Inr r
      \<and> report_metrics r = Some m \<and> total_files m = 0
      \<and> set [(''structure'', ''Add a README.md with project overview and setup instructions''),
              (''structure'', ''Add a .gitignore to exclude build artifacts and secrets''),
              (''quality'', ''Add a tests/ directory with unit and integration tests''),
              (''quality'', ''Add linter configuration (ESLint, Pylint, SwiftLint, etc.)''),
              (''devops'', ''Add CI/CD configuration (GitHub Actions, CircleCI, etc.)'')]
          \<subseteq> set (recommendations r)
      \<and> status r = 1"
  by (simp add: architect_eval)

subsection \<open>Architecture diagram generator\<close>

lemma join_slash_snoc: "join_slash (xs @ [x @ s]) = join_slash (xs @ [x]) @ s"
  by (induction xs rule: join_slash.induct) auto

lemma py_split_aux_no_sep:
  "c \<notin> set s \<Longrightarrow> py_split_aux [c] acc s = [rev acc @ s]"
  by (induction s arbitrary: acc) auto

lemma Path_plain:
  assumes "output \<noteq> []" "output \<noteq> ''.''" "CHR ''/'' \<notin> set output"
  shows "Path output = ([], [output])"
proof -
  have "take 1 output \<noteq> ''/''" using assms(1,3) by (cases "output") auto
  then have "splitroot output = ([], output)" by (simp add: splitroot_def)
  moreover have "py_split output ''/'' = [output]"
    using assms(3) by (simp add: py_split_def py_split_aux_no_sep)
  ultimately show ?thesis using assms(1,2) by (simp add: Path_def)
qed

lemma with_suffix_append:
  assumes "path_name p \<noteq> []" "path_suffix (path_name p) = []"
  shows "\<exists>q. with_suffix p s = Inr q \<and> path_str q = path_str p @ s"
proof -
  obtain root tail where p: "p = (root, tail)" by (cases p)
  from assms(1) p have t: "tail \<noteq> []" by (auto simp: path_name_def split: if_splits)
  then have bl: "tail = butlast tail @ [last tail]" by simp
  have n: "path_name p = last tail" using p t by (simp add: path_name_def)
  have w: "with_suffix p s = Inr (root, butlast tail @ [last tail @ s])"
    using assms p n by (simp add: with_suffix_def Let_def)
  have j: "join_slash (butlast tail @ [last tail @ s]) = join_slash tail @ s"
    using join_slash_snoc [of "butlast tail" "last tail" s] bl by simp
  have ne: "join_slash tail \<noteq> []"
  proof -
    have "last tail \<noteq> []" using assms(1) n by simp
    moreover have "\<And>xs x. x \<noteq> [] \<Longrightarrow> join_slash (xs @ [x]) \<noteq> []"
    proof -
      fix xs :: "string list" and x :: string
      assume "x \<noteq> []"
      then show "join_slash (xs @ [x]) \<noteq> []"
        by (induction xs rule: join_slash.induct) auto
    qed
    ultimately show ?thesis using bl by metis
  qed
  show ?thesis using w j ne p by (simp add: path_str_def Let_def)
qed

lemmas diagram_eval =
  diagram_main_def with_suffix_def Path_def splitroot_def py_split_def path_name_def
  path_suffix_def path_str_def format_ext_def file_content_def written_name_def Let_def

text \<open>
  C8: the diagram is claimed to be written to the file named by the output name followed
  by the extension, and the help of \<^verbatim>\<open>--output\<close> calls the option the file name without
  extension.  For the output name \<^verbatim>\<open>arch.v2\<close> and the format mermaid the file written is
  \<^verbatim>\<open>arch.md\<close>, not \<^verbatim>\<open>arch.v2.md\<close>: \<^verbatim>\<open>with_suffix\<close> replaces the \<^verbatim>\<open>.v2\<close>.
\<close>

theorem diagram_suffix_replaced:
  "diagram_main True ''proj'' ''arch.v2'' Mermaid ''graph TD'' True
     = Inr \<lparr>diagram_status = 0,
            written = Some (''arch.md'', file_content Mermaid ''proj'' ''graph TD'')\<rparr>
   \<and> written_name (diagram_main True ''proj'' ''arch.v2'' Mermaid ''graph TD'' True) = Some ''arch.md''
   \<and> ''arch.md'' \<noteq> ''arch.v2'' @ ''.'' @ format_ext Mermaid"
  by (simp add: diagram_eval)

text \<open>
  Where the output name has a last component without a suffix of its own and the write
  succeeds, the file written is the output path followed by a dot and the extension; for
  a plain file name the output path is the name as given.  A write that fails leaves
  \<^verbatim>\<open>main\<close> with the \<^verbatim>\<open>OSError\<close>.
\<close>

lemma diagram_written_without_suffix:
  assumes "path_name (Path outp) \<noteq> []" "path_suffix (path_name (Path outp)) = []"
  shows "diagram_main True project_name outp f diagram True =
           Inr \<lparr>diagram_status = 0,
                written = Some (path_str (Path outp) @ ''.'' @ format_ext f,
                                file_content f project_name diagram)\<rparr>"
proof -
  obtain q where q: "with_suffix (Path outp) (''.'' @ format_ext f) = Inr q"
    and s: "path_str q = path_str (Path outp) @ ''.'' @ format_ext f"
    using with_suffix_append [of "Path outp" "''.'' @ format_ext f"] assms by auto
  show ?thesis using q s by (simp add: diagram_main_def Let_def)
qed

lemma diagram_plain_name:
  assumes "outp \<noteq> []" "outp \<noteq> ''.''" "CHR ''/'' \<notin> set outp"
  shows "path_str (Path outp) = outp" "path_name (Path outp) = outp"
  using Path_plain [OF assms] assms(1) by (simp_all add: path_str_def path_name_def)

lemma diagram_write_fails:
  assumes "path_name (Path outp) \<noteq> []"
  shows "diagram_main True project_name outp f diagram False = Inl OSError"
  using assms by (simp add: diagram_main_def with_suffix_def Let_def split: prod.splits)

subsection \<open>Dependency analyzer\<close>

lemma hd_py_split_aux:
  "sep \<noteq> [] \<Longrightarrow> hd (py_split_aux sep acc s) = rev acc @ before sep s"
  by (induction s arbitrary: acc) auto

lemma hd_py_split: "sep \<noteq> [] \<Longrightarrow> hd (py_split s sep) = before sep s"
  by (simp add: py_split_def hd_py_split_aux)

lemma before_at: "before ''@'' s = takeWhile (\<lambda>c. c \<noteq> CHR ''@'') s"
  by (induction s) auto

lemma before_at_head:
  "a \<noteq> CHR ''@'' \<Longrightarrow> prefix [a] (before ''@'' cs) = prefix [a] cs"
  by (cases cs) auto

lemma before_ge_at_head:
  "prefix ''='' (before ''>='' (before ''@'' cs)) = prefix ''='' cs"
  by (cases cs) auto

lemma cut_version_before:
  "before ''=='' (before ''>='' (before ''@'' s)) = cut_version s"
proof (induction s)
  case Nil
  show ?case by simp
next
  case (Cons c cs)
  show ?case
  proof (cases "c = CHR ''@''")
    case True
    then show ?thesis by simp
  next
    case at: False
    have a: "before ''@'' (c # cs) = c # before ''@'' cs" using at by simp
    show ?thesis
    proof (cases "prefix ''>='' (c # cs)")
      case True
      then have "prefix ''>='' (c # before ''@'' cs)"
        using before_at_head [of "CHR ''=''" cs] by simp
      then have x: "before ''>='' (c # before ''@'' cs) = []" by simp
      have lhs: "before ''=='' (before ''>='' (before ''@'' (c # cs))) = []"
        by (simp only: a x before.simps(1))
      have rhs: "cut_version (c # cs) = []" using True by auto
      show ?thesis by (simp only: lhs rhs)
    next
      case ge: False
      then have n: "\<not> prefix ''>='' (c # before ''@'' cs)"
        using before_at_head [of "CHR ''=''" cs] by simp
      have b: "before ''>='' (c # before ''@'' cs) = c # before ''>='' (before ''@'' cs)"
        using n by simp
      have e: "prefix ''=='' (c # before ''>='' (before ''@'' cs)) = prefix ''=='' (c # cs)"
        using before_ge_at_head [of cs] by auto
      show ?thesis
      proof (cases "prefix ''=='' (c # cs)")
        case True
        have y: "before ''=='' (c # before ''>='' (before ''@'' cs)) = []"
          by (simp only: before.simps e True if_True)
        have lhs: "before ''=='' (before ''>='' (before ''@'' (c # cs))) = []"
          by (simp only: a b y)
        have rhs: "cut_version (c # cs) = []" using True by auto
        show ?thesis by (simp only: lhs rhs)
      next
        case False
        have y: "before ''=='' (c # before ''>='' (before ''@'' cs))
                     = c # before ''=='' (before ''>='' (before ''@'' cs))"
          by (simp only: before.simps e False if_False)
        have lhs: "before ''=='' (before ''>='' (before ''@'' (c # cs))) = c # cut_version cs"
          by (simp only: a b y Cons.IH)
        have rhs: "cut_version (c # cs) = c # cut_version cs" using at ge False by auto
        show ?thesis by (simp only: lhs rhs)
      qed
    qed
  qed
qed

lemma dep_name_cut: "dep_name dep = strip (cut_version dep)"
  by (simp add: dep_name_def hd_py_split cut_version_before)

lemma deprecated_keys: "map_of deprecated n \<noteq> None \<longleftrightarrow> n \<in> set deny_list"
  by (simp add: deprecated_def deny_list_def)

lemma detect_names:
  "map fst (detect_outdated_patterns deps)
     = filter (\<lambda>n. n \<in> set deny_list) (map (\<lambda>d. strip (cut_version d)) deps)"
proof (induction deps)
  case Nil
  show ?case by (simp add: detect_outdated_patterns_def List.map_filter_simps)
next
  case (Cons d deps)
  show ?case
  proof (cases "map_of deprecated (dep_name d)")
    case None
    then have "strip (cut_version d) \<notin> set deny_list"
      using deprecated_keys [of "dep_name d"] by (simp add: dep_name_cut)
    then show ?thesis
      using Cons None by (simp add: detect_outdated_patterns_def List.map_filter_simps)
  next
    case (Some msg)
    then have "strip (cut_version d) \<in> set deny_list"
      using deprecated_keys [of "dep_name d"] by (simp add: dep_name_cut)
    then show ?thesis
      using Cons Some by (simp add: detect_outdated_patterns_def List.map_filter_simps dep_name_cut)
  qed
qed

lemma detect_messages:
  "entry \<in> set (detect_outdated_patterns deps) \<Longrightarrow> map_of deprecated (fst entry) = Some (snd entry)"
  by (auto simp: detect_outdated_patterns_def List.map_filter_def split: option.splits)

lemma request_axios_run:
  assumes "loads txt = Some request_axios"
  shows "dependency_analyzer_main loads (Some (npm_project txt)) True
           = Inr \<lparr>analyzer_status = 0,
                  all_deps = [(''npm'', Npm [''request'', ''axios''] [] []
                                 [(''request'', JStr ''^1.0''), (''axios'', JStr ''^1.0'')])],
                  warnings = detect_outdated_patterns [''request'', ''axios''],
                  analyzer_stderr = []\<rparr>"
  using assms
  by (simp add: dependency_analyzer_main_def npm_project_def parse_package_json_def
      package_json_body_def request_axios_def parse_requirements_txt_def parse_go_mod_def
      parse_package_swift_def child_def rel_parts_def py_split_def add_manifest_def dict_merge_def
      all_packages_def)

lemma detect_request_axios:
  "map fst (detect_outdated_patterns [''request'', ''axios'']) = [''request'']"
  by (simp add: detect_names deny_list_def strip_def lstrip_def rstrip_def py_isspace_def)



lemma rev_dropWhile_take:
  "rev (dropWhile P (rev t)) = take (length t - length (takeWhile P (rev t))) t"
proof -
  have "rev t = takeWhile P (rev t) @ dropWhile P (rev t)" by simp
  then have "t = rev (dropWhile P (rev t)) @ rev (takeWhile P (rev t))"
    by (metis rev_append rev_rev_ident)
  moreover have "length (rev (dropWhile P (rev t))) = length t - length (takeWhile P (rev t))"
    by (metis add_diff_cancel_left' length_append length_rev takeWhile_dropWhile_id)
  ultimately show ?thesis by (metis append_eq_conv_conj)
qed

lemma strip_trim: "strip s = trim s"
  by (simp add: strip_def lstrip_def rstrip_def trim_def Let_def rev_dropWhile_take)

lemma dep_name_trim: "dep_name dep = trim (cut_version dep)"
  by (simp add: dep_name_cut strip_trim)

lemma detect_names_trim:
  "map fst (detect_outdated_patterns deps)
     = filter (\<lambda>n. n \<in> set [''request'', ''moment'', ''lodash'', ''node-uuid''])
         (map (\<lambda>d. trim (cut_version d)) deps)"
  using detect_names [of deps] by (simp add: deny_list_def strip_trim)

lemma main_warnings:
  assumes "dependency_analyzer_main loads (Some project) analyze = Inr r"
  shows "warnings r = (if analyze then detect_outdated_patterns (all_packages (all_deps r)) else [])"
proof -
  have e: "detect_outdated_patterns (all_packages []) = []"
    by (simp add: all_packages_def detect_outdated_patterns_def List.map_filter_simps)
  show ?thesis
    using assms e unfolding dependency_analyzer_main_def Let_def
    by (auto split: sum.splits prod.splits if_splits)
qed

text \<open>
  C3 as stated fails: the requirements \<^verbatim>\<open>lodash<5\<close> and \<^verbatim>\<open>moment~=2.29\<close> name the
  deny-listed packages lodash and moment, yet with analysis enabled no warning is
  emitted.
\<close>

theorem analyzer_operator_counterexample:
  "bare_identifier ''lodash<5'' = ''lodash''
   \<and> ''lodash'' \<in> set deny_list
   \<and> bare_identifier ''moment~=2.29'' = ''moment''
   \<and> ''moment'' \<in> set deny_list
   \<and> dependency_analyzer_main sample_loads (Some pip_project) True
        = Inr \<lparr>analyzer_status = 0,
               all_deps = [(''pip'', Pip [''lodash<5'', ''moment~=2.29''])],
               warnings = [], analyzer_stderr = []\<rparr>"
  by code_simp

text \<open>
  C3, amended: with analysis enabled on a project whose package.json declares the
  runtime dependencies request and axios, the warning list has exactly one entry, for
  request, and none for axios.  For every run that ends, the warnings are, in order,
  those collected package identifiers that, cut before their first \<^verbatim>\<open>@\<close>, \<^verbatim>\<open>>=\<close> or
  \<^verbatim>\<open>==\<close> and with the surrounding whitespace removed, are keys of the deny-list
  request, moment, lodash, node-uuid (none without analysis); each carries the message
  of its key.  A constraint written with another operator is not cut, so such a
  requirement is not flagged.
\<close>

theorem analyzer_deprecated_warnings:
  "(loads txt = Some request_axios \<longrightarrow>
      (\<exists>r. dependency_analyzer_main loads (Some (npm_project txt)) True = Inr r
           \<and> length (warnings r) = 1 \<and> map fst (warnings r) = [''request'']))
   \<and> (dependency_analyzer_main loads (Some project) analyze = Inr r \<longrightarrow>
        map fst (warnings r) =
          (if analyze
           then filter (\<lambda>n. n \<in> set [''request'', ''moment'', ''lodash'', ''node-uuid''])
                  (map (\<lambda>d. trim (cut_version d)) (all_packages (all_deps r)))
           else [])
        \<and> (\<forall>entry \<in> set (warnings r). map_of deprecated (fst entry) = Some (snd entry)))
   \<and> map fst (detect_outdated_patterns deps)
        = filter (\<lambda>n. n \<in> set [''request'', ''moment'', ''lodash'', ''node-uuid''])
            (map (\<lambda>d. trim (cut_version d)) deps)
   \<and> map fst (detect_outdated_patterns
                 ['' moment >= 2'', ''lodash@4.17.21'', ''node-uuid==1.4 '', ''lodash<5'',
                  ''request~=2.0'', ''axios''])
        = [''moment'', ''lodash'', ''node-uuid'']"
proof (intro conjI impI ballI)
  assume l: "loads txt = Some request_axios"
  have "length (map fst (detect_outdated_patterns [''request'', ''axios''])) = 1"
    by (simp only: detect_request_axios) simp
  then have "length (detect_outdated_patterns [''request'', ''axios'']) = 1" by simp
  then show "\<exists>r. dependency_analyzer_main loads (Some (npm_project txt)) True = Inr r
           \<and> length (warnings r) = 1 \<and> map fst (warnings r) = [''request'']"
    using request_axios_run [of loads "txt"] l detect_request_axios by simp
next
  assume m: "dependency_analyzer_main loads (Some project) analyze = Inr r"
  show "map fst (warnings r) =
          (if analyze
           then filter (\<lambda>n. n \<in> set [''request'', ''moment'', ''lodash'', ''node-uuid''])
                  (map (\<lambda>d. trim (cut_version d)) (all_packages (all_deps r)))
           else [])"
    using main_warnings [OF m] detect_names_trim [of "all_packages (all_deps r)"] by simp
next
  fix entry
  assume m: "dependency_analyzer_main loads (Some project) analyze = Inr r"
    and e: "entry \<in> set (warnings r)"
  have "entry \<in> set (detect_outdated_patterns (all_packages (all_deps r)))"
    using main_warnings [OF m] e by (simp split: if_splits)
  then show "map_of deprecated (fst entry) = Some (snd entry)" by (rule detect_messages)
next
  show "map fst (detect_outdated_patterns deps)
        = filter (\<lambda>n. n \<in> set [''request'', ''moment'', ''lodash'', ''node-uuid''])
            (map (\<lambda>d. trim (cut_version d)) deps)"
    by (rule detect_names_trim)
  show "map fst (detect_outdated_patterns
                 ['' moment >= 2'', ''lodash@4.17.21'', ''node-uuid==1.4 '', ''lodash<5'',
                  ''request~=2.0'', ''axios''])
        = [''moment'', ''lodash'', ''node-uuid'']"
    by code_simp
qed

theorem analyzer_deprecated_warnings_witness:
  "(\<exists>r. dependency_analyzer_main sample_loads (Some (npm_project request_axios_text)) True = Inr r
        \<and> length (warnings r) = 1 \<and> map fst (warnings r) = [''request''])
   \<and> map fst (detect_outdated_patterns [''request'', ''axios''])
        = filter (\<lambda>n. n \<in> set [''request'', ''moment'', ''lodash'', ''node-uuid''])
            (map (\<lambda>d. trim (cut_version d)) [''request'', ''axios''])"
proof -
  define r0 where "r0 = \<lparr>analyzer_status = 0,
                  all_deps = [(''npm'', Npm [''request'', ''axios''] [] []
                                 [(''request'', JStr ''^1.0''), (''axios'', JStr ''^1.0'')])],
                  warnings = detect_outdated_patterns [''request'', ''axios''],
                  analyzer_stderr = []\<rparr>"
  have l: "sample_loads request_axios_text = Some request_axios" by (simp add: sample_loads_def)
  have m: "dependency_analyzer_main sample_loads (Some (npm_project request_axios_text)) True = Inr r0"
    using request_axios_run [of sample_loads request_axios_text] l by (simp add: r0_def)
  have ap: "all_packages (all_deps r0) = [''request'', ''axios'']"
    by (simp add: r0_def all_packages_def)
  have w: "warnings r0 = detect_outdated_patterns [''request'', ''axios'']" by (simp add: r0_def)
  note t = analyzer_deprecated_warnings
             [of sample_loads request_axios_text "npm_project request_axios_text" True r0 "[]"]
  from t l have a: "\<exists>r. dependency_analyzer_main sample_loads (Some (npm_project request_axios_text)) True = Inr r
        \<and> length (warnings r) = 1 \<and> map fst (warnings r) = [''request'']" by blast
  from t m have "map fst (warnings r0) =
          (if True
           then filter (\<lambda>n. n \<in> set [''request'', ''moment'', ''lodash'', ''node-uuid''])
                  (map (\<lambda>d. trim (cut_version d)) (all_packages (all_deps r0)))
           else [])" by blast
  then have b: "map fst (detect_outdated_patterns [''request'', ''axios''])
        = filter (\<lambda>n. n \<in> set [''request'', ''moment'', ''lodash'', ''node-uuid''])
            (map (\<lambda>d. trim (cut_version d)) [''request'', ''axios''])"
    by (simp only: ap w if_True)
  show ?thesis using a b by blast
qed

text \<open>
  C5: a manifest whose bytes do not decode is claimed to give a warning and an empty
  result.  For each of the four manifests \<^verbatim>\<open>read_text\<close> raises
  \<^verbatim>\<open>UnicodeDecodeError\<close>, which no \<^verbatim>\<open>except\<close> clause of the parsers catches, and the
  run ends with that exception.
\<close>

theorem undecodable_manifest_aborts:
  "dependency_analyzer_main loads (Some (Dir [(''package.json'', File Undecodable)])) analyze
      = Inl UnicodeDecodeError
   \<and> dependency_analyzer_main loads (Some (Dir [(''requirements.txt'', File Undecodable)])) analyze
      = Inl UnicodeDecodeError
   \<and> dependency_analyzer_main loads (Some (Dir [(''go.mod'', File Undecodable)])) analyze
      = Inl UnicodeDecodeError
   \<and> dependency_analyzer_main loads (Some (Dir [(''Package.swift'', File Undecodable)])) analyze
      = Inl UnicodeDecodeError"
  by (simp add: dependency_analyzer_main_def parse_package_json_def
      parse_requirements_txt_def parse_go_mod_def
      parse_package_swift_def child_def rel_parts_def py_split_def)

text \<open>
  What the parsers do absorb: a JSON syntax error gives the warning and the empty
  result.  A package file that is valid JSON but not an object raises
  \<^verbatim>\<open>AttributeError\<close>.
\<close>

lemma malformed_json_absorbed:
  assumes "loads txt = None"
  shows "parse_package_json loads (npm_project txt)
           = Inr ([''  Warning: Could not parse package.json''], None)"
  using assms
  by (simp add: parse_package_json_def package_json_body_def npm_project_def child_def
      rel_parts_def py_split_def)

lemma non_object_json_raises:
  assumes "loads txt = Some (JArr [])"
  shows "parse_package_json loads (npm_project txt) = Inl AttributeError"
  using assms
  by (simp add: parse_package_json_def package_json_body_def npm_project_def child_def
      rel_parts_def py_split_def)

subsection \<open>Manifest deduplicator\<close>

lemma lazy_until_suffix:
  "lazy_until lit s = Some (m, r) \<Longrightarrow> suffix r s"
proof (induction s arbitrary: m)
  case Nil
  then show ?case by simp
next
  case (Cons c cs)
  show ?case
  proof (cases "prefix lit cs")
    case True
    then have "r = drop (length lit) cs" using Cons.prems by (auto split: if_splits)
    then have "suffix r cs" by (simp add: suffix_drop)
    then show ?thesis by (simp add: suffix_Cons)
  next
    case False
    then obtain m' where "lazy_until lit cs = Some (m', r)"
      using Cons.prems by (auto split: if_splits option.splits)
    then have "suffix r cs" by (rule Cons.IH)
    then show ?thesis by (simp add: suffix_Cons)
  qed
qed

lemma match_line_suffix:
  "match_line file_id s = Some rest \<Longrightarrow> suffix rest s"
proof -
  assume m: "match_line file_id s = Some rest"
  then obtain mm where
    "lazy_until '' in Sources */,\<newline>'' (drop (length (tabs4 @ file_id @ '' /* '')) s) = Some (mm, rest)"
    unfolding match_line_def Let_def by (auto split: if_splits)
  then have "suffix rest (drop (length (tabs4 @ file_id @ '' /* '')) s)"
    by (rule lazy_until_suffix)
  then show ?thesis using suffix_drop suffix_order.trans by blast
qed

text \<open>A literal that ends with its only newline decides within the current line.\<close>

lemma prefix_line_literal:
  assumes "nl \<notin> set l0" "nl \<in> set s"
  shows "prefix (l0 @ [nl]) (s @ t) = prefix (l0 @ [nl]) s"
proof
  assume p: "prefix (l0 @ [nl]) (s @ t)"
  then obtain z where z: "s @ t = l0 @ [nl] @ z" by (auto simp: prefix_def)
  from assms(2) obtain s1 s2 where s: "s = s1 @ nl # s2" and s1: "nl \<notin> set s1"
    by (meson split_list_first)
  have "takeWhile (\<lambda>c. c \<noteq> nl) (s @ t) = s1"
    using s s1 by (auto simp: takeWhile_tail)
  moreover have "takeWhile (\<lambda>c. c \<noteq> nl) (l0 @ [nl] @ z) = l0"
    using assms(1) by (auto simp: takeWhile_tail)
  ultimately have "s1 = l0" using z by simp
  then show "prefix (l0 @ [nl]) s" using s by simp
next
  assume "prefix (l0 @ [nl]) s"
  then show "prefix (l0 @ [nl]) (s @ t)" by (rule prefix_prefix)
qed

lemma lazy_until_line:
  assumes "nl \<notin> set l0" "nl \<in> set s"
  shows "lazy_until (l0 @ [nl]) (s @ t)
           = map_option (\<lambda>(m, r). (m, r @ t)) (lazy_until (l0 @ [nl]) s)"
  using assms(2)
proof (induction s)
  case Nil
  then show ?case by simp
next
  case (Cons c cs)
  show ?case
  proof (cases "c = nl")
    case True
    then show ?thesis by simp
  next
    case False
    then have in_cs: "nl \<in> set cs" using Cons.prems by auto
    have p: "prefix (l0 @ [nl]) (cs @ t) = prefix (l0 @ [nl]) cs"
      using prefix_line_literal [OF assms(1) in_cs] .
    show ?thesis
    proof (cases "prefix (l0 @ [nl]) cs")
      case True
      then have "length (l0 @ [nl]) \<le> length cs" by (rule prefix_length_le)
      then show ?thesis using True False p by simp
    next
      case np: False
      show ?thesis using np False p Cons.IH [OF in_cs] by (simp split: option.splits)
    qed
  qed
qed

lemma prefix_within_line:
  assumes "nl \<notin> set p" "nl \<in> set s"
  shows "prefix p (s @ t) = prefix p s"
proof
  assume "prefix p (s @ t)"
  then consider "prefix p s" | us where "p = s @ us"
    by (auto simp: prefix_append)
  then show "prefix p s"
  proof cases
    case 1
    then show ?thesis .
  next
    case 2
    then show ?thesis using assms by auto
  qed
next
  assume "prefix p s"
  then show "prefix p (s @ t)" by (rule prefix_prefix)
qed

lemma sources_literal: "'' in Sources */,\<newline>'' = '' in Sources */,'' @ [nl]"
  by simp

lemma match_line_line:
  assumes "nl \<notin> set file_id" "nl \<in> set s"
  shows "match_line file_id (s @ t) = map_option (\<lambda>r. r @ t) (match_line file_id s)"
proof -
  define pre where "pre = tabs4 @ file_id @ '' /* ''"
  have npre: "nl \<notin> set pre" using assms(1) by (simp add: pre_def)
  have p: "prefix pre (s @ t) = prefix pre s"
    using prefix_within_line [OF npre assms(2)] .
  show ?thesis
  proof (cases "prefix pre s")
    case False
    then show ?thesis using p by (simp add: match_line_def pre_def Let_def)
  next
    case True
    then obtain s' where s: "s = pre @ s'" by (auto simp: prefix_def)
    have in_s': "nl \<in> set s'" using assms(2) npre s by auto
    have l: "lazy_until ('' in Sources */,'' @ [nl]) (s' @ t)
               = map_option (\<lambda>(m, r). (m, r @ t)) (lazy_until ('' in Sources */,'' @ [nl]) s')"
      by (rule lazy_until_line) (simp_all add: in_s')
    have a: "match_line file_id (s @ t)
               = map_option snd (lazy_until ('' in Sources */,'' @ [nl]) (s' @ t))"
      using True p s unfolding match_line_def Let_def pre_def [symmetric] sources_literal
      by simp
    have b: "match_line file_id s
               = map_option snd (lazy_until ('' in Sources */,'' @ [nl]) s')"
      using True s unfolding match_line_def Let_def pre_def [symmetric] sources_literal
      by simp
    show ?thesis unfolding a b l by (cases "lazy_until ('' in Sources */,'' @ [nl]) s'") auto
  qed
qed

lemma re_sub_line_append:
  "nl \<notin> set file_id \<Longrightarrow> A = [] \<or> last A = nl \<Longrightarrow>
   re_sub_line file_id (A @ t) = re_sub_line file_id A @ re_sub_line file_id t"
proof (induction file_id A rule: re_sub_line.induct)
  case (1 file_id)
  show ?case by simp
next
  case (2 file_id c cs)
  have lastnl: "last (c # cs) = nl" using "2.prems"(2) by simp
  then have innl: "nl \<in> set (c # cs)" by (metis last_in_set list.distinct(1))
  have ml: "match_line file_id ((c # cs) @ t)
              = map_option (\<lambda>r. r @ t) (match_line file_id (c # cs))"
    using match_line_line [OF "2.prems"(1) innl] .
  show ?case
  proof (cases "match_line file_id (c # cs)")
    case None
    have cs: "cs = [] \<or> last cs = nl" using lastnl by (cases cs) auto
    have "re_sub_line file_id (cs @ t) = re_sub_line file_id cs @ re_sub_line file_id t"
      using "2.IH"(1) [OF None "2.prems"(1) cs] .
    moreover have "match_line file_id (c # cs @ t) = None" using ml None by simp
    ultimately show ?thesis using None by simp
  next
    case (Some rest)
    have "suffix rest (c # cs)" using Some by (rule match_line_suffix)
    then obtain u where u: "c # cs = u @ rest" by (auto simp: suffix_def)
    have r: "rest = [] \<or> last rest = nl"
    proof (cases "rest = []")
      case True
      then show ?thesis by simp
    next
      case False
      then have "last (u @ rest) = last rest" by simp
      then show ?thesis using u lastnl by simp
    qed
    have "re_sub_line file_id (rest @ t) = re_sub_line file_id rest @ re_sub_line file_id t"
      using "2.IH"(2) [OF Some "2.prems"(1) r] .
    moreover have "match_line file_id (c # cs @ t) = Some (rest @ t)" using ml Some by simp
    ultimately show ?thesis using Some by simp
  qed
qed

lemma takeWhile_first_nl: "nl \<notin> set u \<Longrightarrow> takeWhile (\<lambda>c. c \<noteq> nl) (u @ nl # v) = u"
  by (induction u) auto

lemma lazy_until_entry:
  assumes "nl \<notin> set l0"
  shows "x \<noteq> [] \<Longrightarrow> nl \<notin> set x \<Longrightarrow> lazy_until (l0 @ [nl]) (x @ l0 @ [nl] @ B) = Some (x, B)"
proof (induction x)
  case Nil
  then show ?case by simp
next
  case (Cons c x)
  have c: "c \<noteq> nl" using Cons.prems(2) by auto
  show ?case
  proof (cases "x = []")
    case True
    then show ?thesis using c by simp
  next
    case False
    have np: "\<not> prefix (l0 @ [nl]) (x @ l0 @ [nl] @ B)"
    proof
      assume "prefix (l0 @ [nl]) (x @ l0 @ [nl] @ B)"
      then obtain z where z: "x @ l0 @ [nl] @ B = l0 @ [nl] @ z" by (auto simp: prefix_def)
      have "takeWhile (\<lambda>c. c \<noteq> nl) ((x @ l0) @ nl # B) = x @ l0"
        using Cons.prems(2) assms by (intro takeWhile_first_nl) auto
      moreover have "takeWhile (\<lambda>c. c \<noteq> nl) (l0 @ nl # z) = l0"
        using assms by (rule takeWhile_first_nl)
      ultimately have "x @ l0 = l0" using z by simp
      then show False using False by simp
    qed
    have "lazy_until (l0 @ [nl]) (x @ l0 @ [nl] @ B) = Some (x, B)"
      using Cons.IH [OF False] Cons.prems(2) by simp
    then show ?thesis using c np by simp
  qed
qed

lemma match_line_entry:
  assumes "x \<noteq> []" "nl \<notin> set x"
  shows "match_line file_id (entry_line file_id x @ B) = Some B"
proof -
  have l: "lazy_until ('' in Sources */,'' @ [nl]) (x @ '' in Sources */,'' @ [nl] @ B) = Some (x, B)"
    by (rule lazy_until_entry) (simp_all add: assms)
  have e: "entry_line file_id x @ B
             = (tabs4 @ file_id @ '' /* '') @ (x @ '' in Sources */,'' @ [nl] @ B)"
    by (simp add: entry_line_def)
  show ?thesis
    unfolding match_line_def Let_def e sources_literal using l by simp
qed

lemma re_sub_line_entry:
  assumes "x \<noteq> []" "nl \<notin> set x"
  shows "re_sub_line file_id (entry_line file_id x @ B) = re_sub_line file_id B"
proof -
  obtain c cs where e: "entry_line file_id x @ B = c # cs"
    by (cases "entry_line file_id x @ B") (simp_all add: entry_line_def)
  have "match_line file_id (c # cs) = Some B"
    using match_line_entry [OF assms, of file_id B] e by simp
  then have "re_sub_line file_id (c # cs) = re_sub_line file_id B" by simp
  then show ?thesis using e by simp
qed

lemma entry_line_deleted:
  assumes "nl \<notin> set file_id" "A = [] \<or> last A = nl" "x \<noteq> []" "nl \<notin> set x"
  shows "re_sub_line file_id (A @ entry_line file_id x @ B)
           = re_sub_line file_id A @ re_sub_line file_id B"
  using re_sub_line_append [OF assms(1,2)] re_sub_line_entry [OF assms(3,4)] by simp

lemma keep_remove_snoc:
  "keep_remove (ms @ [e]) = keep_remove_step (keep_remove ms) e"
  by (simp add: keep_remove_def)

lemma keep_keys: "fst ` set (files_to_keep ms) = snd ` set ms"
proof (induction ms rule: rev_induct)
  case Nil
  show ?case by (simp add: files_to_keep_def keep_remove_def)
next
  case (snoc e ms)
  obtain file_id filename where e: "e = (file_id, filename)" by (cases e)
  obtain k r where kr: "keep_remove ms = (k, r)" by (cases "keep_remove ms")
  have k: "fst ` set k = snd ` set ms" using snoc kr by (simp add: files_to_keep_def)
  show ?case
    using k by (auto simp: files_to_keep_def keep_remove_snoc kr e keep_remove_step_def)
qed

lemma find_snoc:
  "find P (xs @ [x]) = (case find P xs of None \<Rightarrow> (if P x then Some x else None) | Some y \<Rightarrow> Some y)"
  by (induction xs) auto

lemma keep_first_seen:
  "map_of (files_to_keep ms) name = map_option fst (find (\<lambda>e. snd e = name) ms)"
proof (induction ms rule: rev_induct)
  case Nil
  show ?case by (simp add: files_to_keep_def keep_remove_def)
next
  case (snoc e ms)
  obtain file_id filename where e: "e = (file_id, filename)" by (cases e)
  obtain k r where kr: "keep_remove ms = (k, r)" by (cases "keep_remove ms")
  have k: "fst ` set k = snd ` set ms" using keep_keys [of ms] kr by (simp add: files_to_keep_def)
  have ih: "map_of k name = map_option fst (find (\<lambda>e. snd e = name) ms)"
    using snoc kr by (simp add: files_to_keep_def)
  show ?case
  proof (cases "filename \<in> fst ` set k")
    case True
    then have "filename \<in> snd ` set ms" using k by simp
    then have "filename = name \<Longrightarrow> find (\<lambda>e. snd e = name) ms \<noteq> None"
      by (auto simp: find_None_iff)
    then show ?thesis
      using True ih
      by (auto simp: files_to_keep_def keep_remove_snoc kr e keep_remove_step_def find_snoc
            split: option.splits)
  next
    case False
    then have nf: "filename \<notin> snd ` set ms" using k by simp
    have "filename = name \<Longrightarrow> find (\<lambda>e. snd e = name) ms = None"
      using nf by (force simp: find_None_iff)
    moreover have "filename = name \<Longrightarrow> map_of k name = None"
      using False by (simp add: map_of_eq_None_iff)
    ultimately show ?thesis
      using False ih
      by (auto simp: files_to_keep_def keep_remove_snoc kr e keep_remove_step_def find_snoc
            map_add_def split: option.splits)
  qed
qed

lemma later_indices_snoc:
  "later_indices (ms @ [e])
     = later_indices ms @ (if snd e \<in> snd ` set ms then [length ms] else [])"
proof -
  have "filter (\<lambda>k. snd ((ms @ [e]) ! k) \<in> snd ` set (take k (ms @ [e]))) [0..<length ms]
          = filter (\<lambda>k. snd (ms ! k) \<in> snd ` set (take k ms)) [0..<length ms]"
    by (rule filter_cong) (auto simp: nth_append)
  then show ?thesis by (simp add: later_indices_def)
qed

lemma remove_later:
  "files_to_remove ms = map (\<lambda>k. fst (ms ! k)) (later_indices ms)"
proof (induction ms rule: rev_induct)
  case Nil
  show ?case by (simp add: files_to_remove_def keep_remove_def later_indices_def)
next
  case (snoc e ms)
  obtain file_id filename where e: "e = (file_id, filename)" by (cases e)
  obtain k r where kr: "keep_remove ms = (k, r)" by (cases "keep_remove ms")
  have k: "fst ` set k = snd ` set ms" using keep_keys [of ms] kr by (simp add: files_to_keep_def)
  have ih: "r = map (\<lambda>k. fst (ms ! k)) (later_indices ms)"
    using snoc kr by (simp add: files_to_remove_def)
  have old: "map (\<lambda>k. fst ((ms @ [e]) ! k)) (later_indices ms)
               = map (\<lambda>k. fst (ms ! k)) (later_indices ms)"
    by (rule map_cong) (auto simp: later_indices_def nth_append)
  show ?case
    using k ih old
    by (auto simp: files_to_remove_def keep_remove_snoc kr e keep_remove_step_def
          later_indices_snoc)
qed

lemma remove_nil_if_distinct:
  "distinct (map snd ms) \<Longrightarrow> files_to_remove ms = []"
proof -
  assume d: "distinct (map snd ms)"
  have "later_indices ms = []"
    unfolding later_indices_def filter_empty_conv
  proof
    fix k assume "k \<in> set [0..<length ms]"
    then have k: "k < length ms" by simp
    show "\<not> snd (ms ! k) \<in> snd ` set (take k ms)"
    proof
      assume "snd (ms ! k) \<in> snd ` set (take k ms)"
      then obtain j where j: "j < k" and eq: "snd (ms ! j) = snd (ms ! k)"
        using k by (auto simp: in_set_conv_nth)
      then have "map snd ms ! j = map snd ms ! k" using k by simp
      moreover have "j < length (map snd ms)" "k < length (map snd ms)" using j k by simp_all
      ultimately have "j = k" using d nth_eq_iff_index_eq by blast
      then show False using j by simp
    qed
  qed
  then show ?thesis by (simp add: remove_later)
qed

lemma keep_remove_ids:
  "snd ` set (files_to_keep ms) \<union> set (files_to_remove ms) = fst ` set ms
   \<and> (distinct (map fst ms) \<longrightarrow> snd ` set (files_to_keep ms) \<inter> set (files_to_remove ms) = {})"
proof (induction ms rule: rev_induct)
  case Nil
  show ?case by (simp add: files_to_keep_def files_to_remove_def keep_remove_def)
next
  case (snoc e ms)
  obtain file_id filename where e: "e = (file_id, filename)" by (cases e)
  obtain k r where kr: "keep_remove ms = (k, r)" by (cases "keep_remove ms")
  have u: "snd ` set k \<union> set r = fst ` set ms"
    using snoc kr by (simp add: files_to_keep_def files_to_remove_def)
  have d: "distinct (map fst ms) \<Longrightarrow> snd ` set k \<inter> set r = {}"
    using snoc kr by (simp add: files_to_keep_def files_to_remove_def)
  have new: "distinct (map fst (ms @ [e])) \<Longrightarrow> file_id \<notin> snd ` set k \<and> file_id \<notin> set r"
    using u e by auto
  show ?case
  proof (cases "filename \<in> fst ` set k")
    case True
    then have s: "keep_remove (ms @ [(file_id, filename)]) = (k, r @ [file_id])"
      by (simp add: keep_remove_snoc kr keep_remove_step_def)
    show ?thesis
      using u d new unfolding e files_to_keep_def files_to_remove_def s by auto
  next
    case False
    then have s: "keep_remove (ms @ [(file_id, filename)]) = (k @ [(filename, file_id)], r)"
      by (simp add: keep_remove_snoc kr keep_remove_step_def)
    show ?thesis
      using u d new unfolding e files_to_keep_def files_to_remove_def s by auto
  qed
qed

lemma findall_ids:
  "e \<in> set (findall_entries s) \<Longrightarrow> \<forall>c \<in> set (fst e). is_id_char c"
proof (induction s rule: findall_entries.induct)
  case 1
  then show ?case by simp
next
  case (2 c cs)
  show ?case
  proof (cases "match_entry (c # cs)")
    case None
    then show ?thesis using 2 by simp
  next
    case (Some a)
    obtain g rest where a: "a = (g, rest)" by (cases a)
    have g: "\<forall>c \<in> set (fst g). is_id_char c"
      using Some a unfolding match_entry_def Let_def
      by (auto split: if_splits option.splits dest: set_takeWhileD)
    show ?thesis
    proof (cases "e = g")
      case True
      then show ?thesis using g by simp
    next
      case False
      then have "e \<in> set (findall_entries rest)" using "2.prems" Some a by simp
      then show ?thesis using "2.IH"(2) [OF Some a [symmetric]] by simp
    qed
  qed
qed

lemma removed_id_no_newline:
  assumes "file_id \<in> set (removed (fix_duplicates content))"
  shows "nl \<notin> set file_id"
proof -
  have "file_id \<in> set (files_to_remove (matches content))"
    using assms by (auto simp: fix_duplicates_def Let_def split: if_splits)
  then have "file_id \<in> fst ` set (matches content)"
    using keep_remove_ids [of "matches content"] by blast
  then obtain e where "e \<in> set (findall_entries (sources_section content))" "file_id = fst e"
    by (auto simp: matches_def)
  then have "\<forall>c \<in> set file_id. is_id_char c" using findall_ids by blast
  moreover have "\<not> is_id_char nl" by (simp add: is_id_char_def)
  ultimately show ?thesis by blast
qed

lemma converged_unchanged:
  assumes "distinct (map snd (matches content))"
  shows "removed (fix_duplicates content) = []
         \<and> content_after content (fix_duplicates content) = content"
  using remove_nil_if_distinct [OF assms]
  by (simp add: fix_duplicates_def content_after_def Let_def)

text \<open>
  C7: the deduplicator is claimed to keep the first-seen identifier of a duplicated file
  name and to remove the lines of the later ones, and the script's comment calls
  \<^verbatim>\<open>files_to_keep\<close> the files to keep (first occurrence).  When the main build phase
  lists the same line twice, the identifier \<^verbatim>\<open>AA11\<close> is both the one kept for
  \<^verbatim>\<open>A.swift\<close> and the one to remove, and the substitution deletes both lines:
  \<^verbatim>\<open>A.swift\<close> is left without an entry in the main build phase.
\<close>

theorem dedup_same_identifier_twice:
  "matches same_id_project
     = [(''AA11'', ''A.swift''), (''CC33'', ''B.swift''), (''AA11'', ''A.swift'')]
   \<and> map_of (files_to_keep (matches same_id_project)) ''A.swift'' = Some ''AA11''
   \<and> fix_duplicates same_id_project
        = \<lparr>fix_status = 0, removed = [''AA11''],
           written_content = Some (sample_project [entry_line ''CC33'' ''B.swift''])\<rparr>
   \<and> \<not> contains (sample_project [entry_line ''CC33'' ''B.swift'']) ''AA11''"
  by code_simp

text \<open>
  Two more inputs on which a run does not leave the first-seen entries only.  An entry
  with a blank after its comma is found as a duplicate but its line is not deleted, so
  the duplicate stays.  When the section found ends inside a line that the run deletes,
  the second run finds more entries and removes a further one.
\<close>

lemma dedup_trailing_blank_stays:
  "fix_duplicates blank_project
     = \<lparr>fix_status = 0, removed = [''DD44''], written_content = Some blank_project\<rparr>
   \<and> map snd (matches blank_project) = [''A.swift'', ''A.swift'']"
  by code_simp

lemma dedup_second_run_removes_more:
  "fix_duplicates shifting_project
     = \<lparr>fix_status = 0, removed = [''DD44''],
        written_content = Some (sample_project [entry_line ''AA11'' ''A.swift'',
                                  entry_line ''CC33'' ''C.swift'', entry_line ''EE66'' ''C.swift''])\<rparr>
   \<and> fix_duplicates (sample_project [entry_line ''AA11'' ''A.swift'',
                                  entry_line ''CC33'' ''C.swift'', entry_line ''EE66'' ''C.swift''])
     = \<lparr>fix_status = 0, removed = [''EE66''],
        written_content = Some (sample_project [entry_line ''AA11'' ''A.swift'',
                                  entry_line ''CC33'' ''C.swift''])\<rparr>"
  by code_simp

text \<open>
  On content that is already deduplicated (every file name occurs once among the entries
  found) the run removes nothing and leaves the content as it is; the sample project
  reaches such a content in one run.
\<close>

lemma dedup_sample_runs:
  "fix_duplicates dup_project
     = \<lparr>fix_status = 0, removed = [''BB22''], written_content = Some dup_project_fixed\<rparr>
   \<and> fix_duplicates dup_project_fixed
     = \<lparr>fix_status = 0, removed = [], written_content = Some dup_project_fixed\<rparr>"
  by code_simp

text \<open>
  C10: duplicates are looked for in the located section only, but the substitution runs
  over the whole content: an entry line of the first removed identifier is deleted
  wherever it stands in the document.  In the sample project the entry line of
  \<^verbatim>\<open>BB22\<close> in the build phase of the other target, before the marker, is deleted as
  well, so the text outside the located section changes.
\<close>

theorem removal_over_whole_content:
  "(removed (fix_duplicates content) = file_id # ids
      \<and> content = A @ entry_line file_id x @ B
      \<and> (A = [] \<or> last A = nl) \<and> x \<noteq> [] \<and> nl \<notin> set x \<longrightarrow>
        written_content (fix_duplicates content)
          = Some (foldl (\<lambda>text i. re_sub_line i text)
                    (re_sub_line file_id A @ re_sub_line file_id B) ids))
   \<and> contains (before_marker dup_project) (entry_line ''BB22'' ''A.swift'')
   \<and> fix_duplicates dup_project
        = \<lparr>fix_status = 0, removed = [''BB22''], written_content = Some dup_project_fixed\<rparr>
   \<and> \<not> contains dup_project_fixed ''BB22''
   \<and> before_marker dup_project_fixed \<noteq> before_marker dup_project"
proof (intro conjI impI)
  assume a: "removed (fix_duplicates content) = file_id # ids
      \<and> content = A @ entry_line file_id x @ B
      \<and> (A = [] \<or> last A = nl) \<and> x \<noteq> [] \<and> nl \<notin> set x"
  then have r: "removed (fix_duplicates content) = file_id # ids"
    and c: "content = A @ entry_line file_id x @ B"
    and al: "A = [] \<or> last A = nl" and x: "x \<noteq> []" "nl \<notin> set x"
    by blast+
  have "file_id \<in> set (removed (fix_duplicates content))" by (simp only: r) simp
  then have n: "nl \<notin> set file_id" by (rule removed_id_no_newline)
  have del: "re_sub_line file_id content = re_sub_line file_id A @ re_sub_line file_id B"
    unfolding c using entry_line_deleted [OF n al x] .
  have m: "py_find content main_sources_marker 0 \<noteq> - 1"
    using r by (auto simp: fix_duplicates_def)
  then have "files_to_remove (matches content) = file_id # ids"
    using r by (simp add: fix_duplicates_def Let_def)
  then show "written_content (fix_duplicates content)
          = Some (foldl (\<lambda>text i. re_sub_line i text)
                    (re_sub_line file_id A @ re_sub_line file_id B) ids)"
    using m del by (simp add: fix_duplicates_def Let_def)
next
  show "contains (before_marker dup_project) (entry_line ''BB22'' ''A.swift'')" by code_simp
  show "fix_duplicates dup_project
        = \<lparr>fix_status = 0, removed = [''BB22''], written_content = Some dup_project_fixed\<rparr>"
    by code_simp
  show "\<not> contains dup_project_fixed ''BB22''" by code_simp
  show "before_marker dup_project_fixed \<noteq> before_marker dup_project" by code_simp
qed

theorem removal_over_whole_content_witness:
  "written_content (fix_duplicates dup_project)
     = Some (re_sub_line ''BB22'' other_phase_head @ re_sub_line ''BB22'' after_other_entry)"
proof -
  have r: "removed (fix_duplicates dup_project) = ''BB22'' # []" by code_simp
  have c: "dup_project = other_phase_head @ entry_line ''BB22'' ''A.swift'' @ after_other_entry"
    by (simp add: dup_project_def sample_project_def other_phase_head_def after_other_entry_def)
  have l: "other_phase_head = [] \<or> last other_phase_head = nl"
    by (simp add: other_phase_head_def)
  have x: "''A.swift'' \<noteq> [] \<and> nl \<notin> set ''A.swift''" by simp
  note t = removal_over_whole_content
             [of dup_project "''BB22''" "[]" other_phase_head "''A.swift''" after_other_entry]
  from t r c l x have "written_content (fix_duplicates dup_project)
          = Some (foldl (\<lambda>text i. re_sub_line i text)
                    (re_sub_line ''BB22'' other_phase_head @ re_sub_line ''BB22'' after_other_entry) [])"
    by blast
  then show ?thesis by (simp only: foldl_Nil)
qed

end
